theory Spec2Isabelle
  imports Complex_Main
begin

section \<open>Numbers, points and small utilities of script.js\<close>

text \<open>
  JavaScript numbers are modelled as mathematical reals: every IEEE double that is not NaN or
  an infinity is a real, and the arithmetic of the model is exact. A value that may be
  \<^verbatim>\<open>null\<close> is a \<open>real option\<close>; \<open>None\<close> is \<^verbatim>\<open>null\<close>.
\<close>

record point =
  lat :: real
  lon :: real
  ele :: "real option"

text \<open>\<^verbatim>\<open>a ?? b\<close> on values that may be null.\<close>

definition nullish :: "'a option \<Rightarrow> 'a option \<Rightarrow> 'a option" where
  "nullish a b = (case a of None \<Rightarrow> b | Some x \<Rightarrow> Some x)"

text \<open>\<^verbatim>\<open>a ?? d\<close> where the default \<open>d\<close> is a number.\<close>

definition orElse :: "'a option \<Rightarrow> 'a \<Rightarrow> 'a" where
  "orElse a d = (case a of None \<Rightarrow> d | Some x \<Rightarrow> x)"

text \<open>The number an arithmetic operator reads from a nullable operand: null counts as 0.\<close>

definition toNumber :: "real option \<Rightarrow> real" where
  "toNumber a = (case a of None \<Rightarrow> 0 | Some x \<Rightarrow> x)"

text \<open>
  \<^verbatim>\<open>xs[i]\<close> for an integer index: \<open>None\<close> is \<^verbatim>\<open>undefined\<close>, what an array
  gives outside its bounds.
\<close>

definition arrayGet :: "'a list \<Rightarrow> int \<Rightarrow> 'a option" where
  "arrayGet xs i = (if 0 \<le> i \<and> i < int (length xs) then Some (xs ! nat i) else None)"

text \<open>\<^verbatim>\<open>function clamp(x, a, b) { return Math.max(a, Math.min(b, x)); }\<close>\<close>

definition clamp :: "real \<Rightarrow> real \<Rightarrow> real \<Rightarrow> real" where
  "clamp x a b = max a (min b x)"

text \<open>
  \<^verbatim>\<open>toPosNum(v, d)\<close> and \<^verbatim>\<open>toNonNegNum(v, d)\<close>; the argument is what
  \<^verbatim>\<open>parseFloat\<close> made of the field, \<open>None\<close> for NaN (every comparison with NaN is false).
\<close>

definition toPosNum :: "real option \<Rightarrow> real \<Rightarrow> real" where
  "toPosNum v d = (case v of None \<Rightarrow> d | Some n \<Rightarrow> if n > 0 then n else d)"

definition toNonNegNum :: "real option \<Rightarrow> real \<Rightarrow> real" where
  "toNonNegNum v d = (case v of None \<Rightarrow> d | Some n \<Rightarrow> if n \<ge> 0 then n else d)"

text \<open>\<^verbatim>\<open>Math.round\<close>: the nearest integer, halves upwards.\<close>

definition mathRound :: "real \<Rightarrow> int" where
  "mathRound x = \<lfloor>x + 1 / 2\<rfloor>"

text \<open>
  \<^verbatim>\<open>clampToOdd(val, minOdd, maxOdd)\<close> on integers:
  \<^verbatim>\<open>val = clamp(val, minOdd, maxOdd); if (val % 2 === 0) val += (val >= maxOdd ? -1 : 1);\<close>
\<close>

definition clampToOdd :: "int \<Rightarrow> int \<Rightarrow> int \<Rightarrow> int" where
  "clampToOdd val minOdd maxOdd =
     (let v = max minOdd (min maxOdd val)
      in if v mod 2 = 0 then v + (if v \<ge> maxOdd then - 1 else 1) else v)"

subsection \<open>Great-circle distance\<close>

text \<open>
  \<^verbatim>\<open>Math.atan2(y, x)\<close> on reals. \<open>haversineKm\<close> only calls it with two square roots.
\<close>

definition atan2 :: "real \<Rightarrow> real \<Rightarrow> real" where
  "atan2 y x =
     (if x > 0 then arctan (y / x)
      else if x < 0 then (if y \<ge> 0 then arctan (y / x) + pi else arctan (y / x) - pi)
      else if y > 0 then pi / 2
      else if y < 0 then - (pi / 2)
      else 0)"

definition toRad :: "real \<Rightarrow> real" where
  "toRad d = d * pi / 180"

text \<open>The argument \<^verbatim>\<open>a\<close> of the square roots in \<^verbatim>\<open>haversineKm\<close>.\<close>

definition havA :: "real \<Rightarrow> real \<Rightarrow> real \<Rightarrow> real \<Rightarrow> real" where
  "havA lat1 lon1 lat2 lon2 =
     (let dLat = toRad (lat2 - lat1); dLon = toRad (lon2 - lon1)
      in (sin (dLat / 2))\<^sup>2 + cos (toRad lat1) * cos (toRad lat2) * (sin (dLon / 2))\<^sup>2)"

definition haversineKm :: "real \<Rightarrow> real \<Rightarrow> real \<Rightarrow> real \<Rightarrow> real" where
  "haversineKm lat1 lon1 lat2 lon2 =
     (let a = havA lat1 lon1 lat2 lon2
      in 6371 * 2 * atan2 (sqrt a) (sqrt (1 - a)))"

section \<open>The per-step time model\<close>

text \<open>
  The body of the inner loop of the calculate handler, for the step from
  \<^verbatim>\<open>resampled[i - 1]\<close> to \<^verbatim>\<open>resampled[i]\<close>. \<open>fPrev\<close> and \<open>fCur\<close> are
  \<^verbatim>\<open>elevFiltered[i - 1]\<close> and \<^verbatim>\<open>elevFiltered[i]\<close>.
\<close>

record stepValues =
  stepDistKm :: real
  stepAscentM :: real
  stepDescentM :: real
  stepTimeH :: real

definition dEleF :: "real option \<Rightarrow> real option \<Rightarrow> real" where
  "dEleF fPrev fCur = toNumber (nullish fCur fPrev) - toNumber (nullish fPrev fCur)"

definition segTimeH :: "real \<Rightarrow> real \<Rightarrow> real \<Rightarrow> real \<Rightarrow> real \<Rightarrow> real \<Rightarrow> real" where
  "segTimeH speedFlatKmh speedVertMh downhillFactor distKm ascentM descentM =
     (let h = distKm / speedFlatKmh;
          vMag = (if ascentM > 0 then ascentM else descentM);
          v = (if vMag > 0 then vMag / speedVertMh else 0);
          t = max h v + 0.5 * min h v
      in if descentM > 0 \<and> descentM \<ge> ascentM then t * downhillFactor else t)"

definition stepOf ::
  "real \<Rightarrow> real \<Rightarrow> real \<Rightarrow> point \<Rightarrow> point \<Rightarrow> real option \<Rightarrow> real option \<Rightarrow> stepValues" where
  "stepOf speedFlatKmh speedVertMh downhillFactor p1 p2 fPrev fCur =
     (let distKm = haversineKm (lat p1) (lon p1) (lat p2) (lon p2);
          d = dEleF fPrev fCur;
          ascentM = (if d > 0 then d else 0);
          descentM = (if d < 0 then - d else 0)
      in \<lparr> stepDistKm = distKm, stepAscentM = ascentM, stepDescentM = descentM,
           stepTimeH = segTimeH speedFlatKmh speedVertMh downhillFactor distKm ascentM descentM \<rparr>)"

section \<open>Geometry and filters\<close>

subsection \<open>Elevation gap-filler\<close>

text \<open>
  One pass of \<^verbatim>\<open>fillElevationOnPoints\<close>: a point without elevation takes the last
  elevation seen, a point with one becomes the last seen. The function runs the pass forwards
  and then backwards over the result.
\<close>

fun fillPass :: "real option \<Rightarrow> point list \<Rightarrow> point list" where
  "fillPass l [] = []"
| "fillPass l (p # ps) =
     (case ele p of
        None \<Rightarrow> p\<lparr>ele := l\<rparr> # fillPass l ps
      | Some e \<Rightarrow> p # fillPass (Some e) ps)"

definition fillElevationOnPoints :: "point list \<Rightarrow> point list" where
  "fillElevationOnPoints points = rev (fillPass None (rev (fillPass None points)))"

subsection \<open>Distance resampler\<close>

text \<open>The array \<^verbatim>\<open>cum\<close> of \<^verbatim>\<open>resampleByDistance\<close>: arc length in metres up to each point.\<close>

fun cumFrom :: "real \<Rightarrow> point list \<Rightarrow> real list" where
  "cumFrom c (p # q # ps) =
     (let d = haversineKm (lat p) (lon p) (lat q) (lon q) * 1000
      in (c + d) # cumFrom (c + d) (q # ps))"
| "cumFrom c ps = []"

definition arcCum :: "point list \<Rightarrow> real list" where
  "arcCum points = 0 # cumFrom 0 points"

text \<open>
  \<^verbatim>\<open>for (let s = 0; s <= total; s += spacingM) targets.push(s);\<close>
  The loop does not end when \<open>spacingM \<le> 0 \<le> total\<close>: not returning is \<open>None\<close>.
\<close>

partial_function (option) targetsLoop :: "real \<Rightarrow> real \<Rightarrow> real \<Rightarrow> real list \<Rightarrow> real list option" where
  "targetsLoop totalM spacingM s targets =
     (if s \<le> totalM then targetsLoop totalM spacingM (s + spacingM) (targets @ [s])
      else Some targets)"

text \<open>\<^verbatim>\<open>if (targets[targets.length - 1] < total) targets.push(total);\<close>\<close>

definition closeTargets :: "real \<Rightarrow> real list \<Rightarrow> real list" where
  "closeTargets totalM targets =
     (case targets of
        [] \<Rightarrow> targets
      | _ \<Rightarrow> if last targets < totalM then targets @ [totalM] else targets)"

text \<open>\<^verbatim>\<open>while (j < cum.length && cum[j] < t) j++;\<close>\<close>

function advance :: "real list \<Rightarrow> real \<Rightarrow> nat \<Rightarrow> nat" where
  "advance cum t j = (if j < length cum \<and> cum ! j < t then advance cum t (Suc j) else j)"
  by pat_completeness auto
termination
  by (relation "measure (\<lambda>(cum, t, j). length cum - j)") auto

text \<open>The point the loop body builds for target \<open>t\<close> between \<open>points[j - 1]\<close> and \<open>points[j]\<close>.\<close>

definition interpolate :: "point list \<Rightarrow> real list \<Rightarrow> nat \<Rightarrow> real \<Rightarrow> point" where
  "interpolate points cum j t =
     (let t0 = cum ! (j - 1); t1 = cum ! j;
          p0 = points ! (j - 1); p1 = points ! j;
          denom = (if t1 - t0 = 0 then 1 else t1 - t0);
          a = clamp ((t - t0) / denom) 0 1
      in \<lparr> lat = lat p0 + a * (lat p1 - lat p0),
           lon = lon p0 + a * (lon p1 - lon p0),
           ele = (case (ele p0, ele p1) of
                    (Some e0, Some e1) \<Rightarrow> Some (e0 + a * (e1 - e0))
                  | (Some e0, None) \<Rightarrow> Some e0
                  | (None, e1) \<Rightarrow> e1) \<rparr>)"

text \<open>The loop over the targets; \<open>j\<close> is kept from one target to the next.\<close>

fun resampleLoop :: "point list \<Rightarrow> real list \<Rightarrow> nat \<Rightarrow> real list \<Rightarrow> point list" where
  "resampleLoop points cum j [] = []"
| "resampleLoop points cum j (t # ts) =
     (let j' = advance cum t j
      in (if j' \<ge> length cum then last points else interpolate points cum j' t)
         # resampleLoop points cum j' ts)"

text \<open>Every real is finite; the guard of the source is kept where it stands.\<close>

definition isFinite :: "real \<Rightarrow> bool" where
  "isFinite x = True"

definition resampleByDistance :: "point list \<Rightarrow> real \<Rightarrow> point list option" where
  "resampleByDistance points spacingM =
     (let cum = arcCum points; totalM = last cum
      in if \<not> isFinite totalM \<or> totalM = 0 then Some (take (min (length points) 2) points)
         else case targetsLoop totalM spacingM 0 [] of
                None \<Rightarrow> None
              | Some targets \<Rightarrow> Some (resampleLoop points cum 1 (closeTargets totalM targets)))"

subsection \<open>Median filter\<close>

definition medianAt :: "real option list \<Rightarrow> int \<Rightarrow> nat \<Rightarrow> real option" where
  "medianAt arr half i =
     (let n = int (length arr);
          start = max 0 (int i - half);
          stop = min (n - 1) (int i + half);
          vals = sort (List.map_filter (\<lambda>k. arr ! nat k) [start..stop]);
          mid = length vals div 2
      in if vals = [] then None
         else if length vals mod 2 \<noteq> 0 then Some (vals ! mid)
         else Some ((vals ! (mid - 1) + vals ! mid) / 2))"

definition medianFilter :: "real option list \<Rightarrow> int \<Rightarrow> real option list" where
  "medianFilter arr win =
     (if length arr = 0 then arr
      else map (medianAt arr (win div 2)) [0..<length arr])"

subsection \<open>Deadband filter\<close>

text \<open>\<^verbatim>\<open>while (first == null && i0 < n - 1) first = elev[++i0];\<close> with \<open>first = elev[i0]\<close>.\<close>

function firstIndex :: "real option list \<Rightarrow> nat \<Rightarrow> nat" where
  "firstIndex elev i0 =
     (if elev ! i0 = None \<and> i0 < length elev - 1 then firstIndex elev (Suc i0) else i0)"
  by pat_completeness auto
termination
  by (relation "measure (\<lambda>(elev, i0). length elev - i0)") auto

text \<open>One round of the main loop, on the state \<open>(out, cumErr)\<close> at index \<open>i\<close>.\<close>

definition deadbandStep ::
  "real option list \<Rightarrow> real \<Rightarrow> real option list \<times> real \<Rightarrow> nat \<Rightarrow> real option list \<times> real" where
  "deadbandStep elev deadband st i =
     (let out = fst st; cumErr = snd st;
          prev = nullish (nullish (elev ! (i - 1)) (elev ! i)) (out ! (i - 1));
          cur = nullish (elev ! i) prev;
          delta = toNumber cur - toNumber prev;
          cumErr' = cumErr + delta
      in if \<bar>cumErr'\<bar> > deadband
         then (let move = cumErr' - sgn cumErr' * deadband
               in (out[i := Some (toNumber (out ! (i - 1)) + move)], sgn cumErr' * deadband))
         else (out[i := out ! (i - 1)], cumErr'))"

definition cumulativeDeadbandFilter :: "real option list \<Rightarrow> real \<Rightarrow> real option list" where
  "cumulativeDeadbandFilter elev deadband =
     (let n = length elev
      in if n = 0 then []
         else let i0 = firstIndex elev 0; first = elev ! i0
              in if first = None then elev
                 else let out0 = (replicate n None)[i0 := first];
                          out1 = fst (foldl (deadbandStep elev deadband) (out0, 0) [Suc i0..<n])
                      in foldl (\<lambda>out k. out[k := out ! i0]) out1 [0..<i0])"

declare advance.simps [simp del]
declare firstIndex.simps [simp del]

section \<open>Session state\<close>

text \<open>
  The global variables of script.js. A leg key \<^verbatim>\<open>`${a}|${b}`\<close> is modelled as the pair
  \<open>(a, b)\<close> of its two indices: the code builds the string from two integers and reads the
  integers back with \<^verbatim>\<open>k.split('|').map(Number)\<close>. A map entry that is absent is \<open>None\<close>.
  Of a Leaflet marker the model keeps \<^verbatim>\<open>__idx\<close> and \<^verbatim>\<open>__locked\<close>; of the summary card it
  keeps which text is shown and the five numbers of the summary.
\<close>

type_synonym legKey = "int \<times> int"

record marker =
  markerIdx :: int
  markerLocked :: bool

datatype outputView =
    OutputEmpty
  | OutputNoSegments
  | OutputSummary real real real real real

record session =
  trackLatLngs :: "(real \<times> real) list"
  trackBreakIdx :: "nat list"
  cumDistKm :: "real list"
  cumAscentM :: "real list"
  cumDescentM :: "real list"
  cumTimeH :: "real list"
  roadbookIdx :: "int list"
  roadbookLabels :: "int \<rightharpoonup> string"
  legLabels :: "legKey \<rightharpoonup> string"
  legStopsMin :: "legKey \<rightharpoonup> real"
  legCondPct :: "legKey \<rightharpoonup> real"
  legCritical :: "legKey \<rightharpoonup> bool"
  markers :: "marker list"
  lastTotalAdjustedH :: real
  outputEl :: outputView

subsection \<open>Strings of labels\<close>

fun showNat :: "nat \<Rightarrow> string" where
  "showNat n =
     (if n < 10 then [char_of (48 + n)] else showNat (n div 10) @ [char_of (48 + n mod 10)])"

declare showNat.simps [simp del]

definition showInt :: "int \<Rightarrow> string" where
  "showInt i = (if i < 0 then CHR ''-'' # showNat (nat (- i)) else showNat (nat i))"

definition isSpace :: "char \<Rightarrow> bool" where
  "isSpace c = (c = CHR '' '' \<or> c = CHR 0x09 \<or> c = CHR 0x0A \<or> c = CHR 0x0B \<or> c = CHR 0x0C \<or> c = CHR 0x0D)"

definition trim :: "string \<Rightarrow> string" where
  "trim s = rev (dropWhile isSpace (rev (dropWhile isSpace s)))"

text \<open>\<^verbatim>\<open>xs.indexOf(x)\<close>: the first position of \<open>x\<close>, or \<open>-1\<close>.\<close>

fun indexOf :: "'a list \<Rightarrow> 'a \<Rightarrow> int" where
  "indexOf [] x = - 1"
| "indexOf (y # ys) x = (if y = x then 0 else (let r = indexOf ys x in if r < 0 then - 1 else r + 1))"

subsection \<open>Leg names\<close>

definition getLegKey :: "int \<Rightarrow> int \<Rightarrow> legKey" where
  "getLegKey a b = (a, b)"

text \<open>\<^verbatim>\<open>roadbookLabels.get(idx) || `#${idx}`\<close>: an absent or empty label gives the default.\<close>

definition getWaypointLabel :: "session \<Rightarrow> int \<Rightarrow> string" where
  "getWaypointLabel st idx =
     (case roadbookLabels st idx of
        None \<Rightarrow> CHR ''#'' # showInt idx
      | Some l \<Rightarrow> if l = [] then CHR ''#'' # showInt idx else l)"

section \<open>The roadbooks table and the saved plan\<close>

record legEntry =
  eIdx :: nat
  eA :: int
  eB :: int
  eKey :: legKey
  eDistKm :: real
  eAscM :: real
  eDesM :: real
  eBaseH :: real
  eStopsMin :: real
  eCondPct :: real
  eTotalH :: real

text \<open>The body of the loop of \<^verbatim>\<open>renderRoadbooksTable\<close> that builds \<^verbatim>\<open>legEntries\<close>, for one \<open>k\<close>.\<close>

definition legEntryAt :: "session \<Rightarrow> nat \<Rightarrow> legEntry" where
  "legEntryAt st k =
     (let lastIdx = int (length (trackLatLngs st)) - 1;
          aRaw = roadbookIdx st ! (k - 1);
          bRaw = roadbookIdx st ! k;
          a = max 0 (min aRaw lastIdx);
          b = max 0 (min bRaw lastIdx);
          key = getLegKey a b;
          dA = orElse (arrayGet (cumDistKm st) a) 0; dB = orElse (arrayGet (cumDistKm st) b) dA;
          uA = orElse (arrayGet (cumAscentM st) a) 0; uB = orElse (arrayGet (cumAscentM st) b) uA;
          vA = orElse (arrayGet (cumDescentM st) a) 0; vB = orElse (arrayGet (cumDescentM st) b) vA;
          tA = orElse (arrayGet (cumTimeH st) a) 0; tB = orElse (arrayGet (cumTimeH st) b) tA;
          distKm = dB - dA;
          ascM = uB - uA;
          desM = vB - vA;
          timeH = tB - tA;
          stopsMin = orElse (legStopsMin st key) 0;
          condPct = orElse (legCondPct st key) 0;
          totalH = timeH * (1 + condPct / 100) + (stopsMin / 60)
      in \<lparr> eIdx = k, eA = a, eB = b, eKey = key, eDistKm = distKm, eAscM = ascM, eDesM = desM,
           eBaseH = timeH, eStopsMin = stopsMin, eCondPct = condPct, eTotalH = totalH \<rparr>)"

definition legEntries :: "session \<Rightarrow> legEntry list" where
  "legEntries st = map (legEntryAt st) [1..<length (roadbookIdx st)]"

text \<open>\<^verbatim>\<open>updateSummaryCard\<close>; \<^verbatim>\<open>lastTotalAdjustedH || activityTimeH\<close> takes the second when the first is 0.\<close>

definition updateSummaryCard :: "session \<Rightarrow> session" where
  "updateSummaryCard st =
     (if length (trackLatLngs st) = 0 \<or> length (cumDistKm st) = 0 then st\<lparr>outputEl := OutputEmpty\<rparr>
      else let totalDistKm = orElse (arrayGet (cumDistKm st) (int (length (cumDistKm st)) - 1)) 0;
               totalAscentM = orElse (arrayGet (cumAscentM st) (int (length (cumAscentM st)) - 1)) 0;
               totalDescentM = orElse (arrayGet (cumDescentM st) (int (length (cumDescentM st)) - 1)) 0;
               activityTimeH = orElse (arrayGet (cumTimeH st) (int (length (cumTimeH st)) - 1)) 0;
               totalTimeH = (if lastTotalAdjustedH st \<noteq> 0 then lastTotalAdjustedH st else activityTimeH)
           in st\<lparr>outputEl := OutputSummary totalDistKm totalAscentM totalDescentM activityTimeH totalTimeH\<rparr>)"

text \<open>
  \<^verbatim>\<open>renderRoadbooksTable\<close>, without the HTML it writes: the adjusted total it stores and the
  summary it refreshes.
\<close>

definition renderRoadbooksTable :: "session \<Rightarrow> session" where
  "renderRoadbooksTable st =
     (if length (trackLatLngs st) = 0 \<or> length (roadbookIdx st) < 2 then updateSummaryCard st
      else let totalAdjustedH = foldl (\<lambda>s L. s + eTotalH L) 0 (legEntries st)
           in updateSummaryCard (st\<lparr>lastTotalAdjustedH := totalAdjustedH\<rparr>))"

record planLeg =
  pIdx :: nat
  pA :: int
  pB :: int
  pKey :: legKey
  pDistKm :: real
  pAscM :: real
  pDesM :: real
  pBaseH :: real
  pStopsMin :: real
  pCondPct :: real
  pTotalH :: real
  pCumDistKm :: real
  pCumAscM :: real
  pCumDesM :: real
  pCumTimeAdjH :: real
  pCritical :: bool

text \<open>
  The body of the loop of \<^verbatim>\<open>serializePlan\<close> that builds \<^verbatim>\<open>legs\<close>, for one \<open>k\<close> and
  the four running totals before it. The name of a leg is left out of the record.
\<close>

definition planLegAt :: "session \<Rightarrow> real \<Rightarrow> real \<Rightarrow> real \<Rightarrow> real \<Rightarrow> nat \<Rightarrow> planLeg" where
  "planLegAt st cumDistKmShown cumAscMShown cumDesMShown cumTimeAdjH k =
     (let lastIdx = int (length (trackLatLngs st)) - 1;
          aRaw = roadbookIdx st ! (k - 1);
          bRaw = roadbookIdx st ! k;
          a = max 0 (min aRaw lastIdx);
          b = max 0 (min bRaw lastIdx);
          key = getLegKey a b;
          dA = orElse (arrayGet (cumDistKm st) a) 0; dB = orElse (arrayGet (cumDistKm st) b) dA;
          uA = orElse (arrayGet (cumAscentM st) a) 0; uB = orElse (arrayGet (cumAscentM st) b) uA;
          vA = orElse (arrayGet (cumDescentM st) a) 0; vB = orElse (arrayGet (cumDescentM st) b) vA;
          tA = orElse (arrayGet (cumTimeH st) a) 0; tB = orElse (arrayGet (cumTimeH st) b) tA;
          distKm = dB - dA;
          ascM = uB - uA;
          desM = vB - vA;
          baseH = tB - tA;
          stopsMin = orElse (legStopsMin st key) 0;
          condPct = orElse (legCondPct st key) 0;
          totalH = baseH * (1 + condPct / 100) + (stopsMin / 60)
      in \<lparr> pIdx = k, pA = a, pB = b, pKey = key, pDistKm = distKm, pAscM = ascM, pDesM = desM,
           pBaseH = baseH, pStopsMin = stopsMin, pCondPct = condPct, pTotalH = totalH,
           pCumDistKm = cumDistKmShown + distKm, pCumAscM = cumAscMShown + ascM,
           pCumDesM = cumDesMShown + desM, pCumTimeAdjH = cumTimeAdjH + totalH,
           pCritical = (case legCritical st key of Some c \<Rightarrow> c | None \<Rightarrow> False) \<rparr>)"

text \<open>The loop itself: each round hands its running totals to the next.\<close>

fun planLegsFrom :: "session \<Rightarrow> real \<Rightarrow> real \<Rightarrow> real \<Rightarrow> real \<Rightarrow> nat list \<Rightarrow> planLeg list" where
  "planLegsFrom st cumDistKmShown cumAscMShown cumDesMShown cumTimeAdjH [] = []"
| "planLegsFrom st cumDistKmShown cumAscMShown cumDesMShown cumTimeAdjH (k # ks) =
     (let L = planLegAt st cumDistKmShown cumAscMShown cumDesMShown cumTimeAdjH k
      in L # planLegsFrom st (pCumDistKm L) (pCumAscM L) (pCumDesM L) (pCumTimeAdjH L) ks)"

definition serializePlanLegs :: "session \<Rightarrow> planLeg list" where
  "serializePlanLegs st = planLegsFrom st 0 0 0 0 [1..<length (roadbookIdx st)]"

section \<open>Roadbooks: adding, labelling and removing waypoints\<close>

text \<open>
  \<^verbatim>\<open>setRoadbookLabel(idx, newLabel)\<close>; the tooltip of the marker is not part of the model.
\<close>

definition setRoadbookLabel :: "int \<Rightarrow> string \<Rightarrow> session \<Rightarrow> session" where
  "setRoadbookLabel idx newLabel st =
     (let label = trim newLabel
      in if idx \<notin> set (roadbookIdx st) then st
         else st\<lparr>roadbookLabels := (roadbookLabels st)(idx \<mapsto> (if label = [] then CHR ''#'' # showInt idx else label))\<rparr>)"

text \<open>
  The click handler \<^verbatim>\<open>addRoadbookIndex\<close> gives the marker \<open>m\<close>: nothing happens on a locked
  marker; otherwise the index leaves \<^verbatim>\<open>roadbookIdx\<close>, the marker and the waypoint label are
  removed, every custom leg label whose key has the index on either side is deleted, the
  entries \<^verbatim>\<open>`${m.__idx}|${m.__idx+1}`\<close> of \<^verbatim>\<open>legStopsMin\<close> and \<^verbatim>\<open>legCondPct\<close> are deleted,
  and the table is rendered.
\<close>

fun removeFirstMarker :: "int \<Rightarrow> marker list \<Rightarrow> marker list" where
  "removeFirstMarker i [] = []"
| "removeFirstMarker i (mm # ms) = (if markerIdx mm = i then ms else mm # removeFirstMarker i ms)"

definition markerClick :: "marker \<Rightarrow> session \<Rightarrow> session" where
  "markerClick m st =
     (if markerLocked m then st
      else let i = markerIdx m
           in renderRoadbooksTable
                (st\<lparr>roadbookIdx := remove1 i (roadbookIdx st),
                    markers := removeFirstMarker i (markers st),
                    roadbookLabels := (roadbookLabels st)(i := None),
                    legLabels := (\<lambda>k. if fst k = i \<or> snd k = i then None else legLabels st k),
                    legStopsMin := (legStopsMin st)((i, i + 1) := None),
                    legCondPct := (legCondPct st)((i, i + 1) := None)\<rparr>))"

text \<open>
  \<^verbatim>\<open>addRoadbookIndex(i, { noRender, label, locked })\<close>. The index is an integer at every call,
  so \<^verbatim>\<open>Math.round\<close> leaves it as it is.
\<close>

definition addRoadbookIndex :: "int \<Rightarrow> bool \<Rightarrow> string \<Rightarrow> bool \<Rightarrow> session \<Rightarrow> session" where
  "addRoadbookIndex i0 noRender label locked st =
     (let i = max 0 (min (int (length (trackLatLngs st)) - 1) i0)
      in if i \<in> set (roadbookIdx st)
         then (let newLabel = trim label;
                   st1 = (if newLabel \<noteq> [] \<and>
                             (case roadbookLabels st i of
                                None \<Rightarrow> True
                              | Some l \<Rightarrow> l = [] \<or> l = CHR ''#'' # showInt i)
                          then setRoadbookLabel i newLabel st else st)
               in if \<not> noRender then renderRoadbooksTable st1 else st1)
         else (let idxs = sort (roadbookIdx st @ [i]);
                   initial =
                     (if label \<noteq> [] \<and> trim label \<noteq> [] then trim label
                      else case roadbookLabels st i of
                             Some l \<Rightarrow> if l \<noteq> [] then l
                                       else if i = 0 then ''Start''
                                       else if i = int (length (trackLatLngs st)) - 1 then ''Finish''
                                       else ''WP '' @ showInt (indexOf idxs i)
                           | None \<Rightarrow> if i = 0 then ''Start''
                                     else if i = int (length (trackLatLngs st)) - 1 then ''Finish''
                                     else ''WP '' @ showInt (indexOf idxs i));
                   st1 = st\<lparr>roadbookIdx := idxs,
                            roadbookLabels := (roadbookLabels st)(i \<mapsto> initial),
                            markers := markers st @ [\<lparr> markerIdx = i, markerLocked = locked \<rparr>]\<rparr>
               in if \<not> noRender then renderRoadbooksTable st1 else st1))"

section \<open>GPX parsing\<close>

text \<open>
  The XML document the browser's parser gives, as far as the code reads it: whether it holds a
  \<^verbatim>\<open>parsererror\<close>, and the \<^verbatim>\<open>trkpt\<close> nodes of each \<^verbatim>\<open>trkseg\<close>, the \<^verbatim>\<open>rtept\<close> and the
  \<^verbatim>\<open>wpt\<close> nodes in document order. Of a node: what \<^verbatim>\<open>parseFloat\<close> reads from its \<^verbatim>\<open>lat\<close> and
  \<^verbatim>\<open>lon\<close> attributes (\<open>None\<close> when not a finite number), its first \<^verbatim>\<open>ele\<close> child if any
  (with the finite number in it, if any), and the text of its first \<^verbatim>\<open>name\<close>, \<^verbatim>\<open>cmt\<close> and
  \<^verbatim>\<open>sym\<close> children.
\<close>

record xmlPt =
  attrLat :: "real option"
  attrLon :: "real option"
  eleNode :: "real option option"
  nameNode :: "string option"
  cmtNode :: "string option"
  symNode :: "string option"

record gpxDoc =
  parserError :: bool
  trksegNodes :: "xmlPt list list"
  rteptNodes :: "xmlPt list"
  wptNodes :: "xmlPt list"

text \<open>A node as a track point, kept only when both coordinates are finite.\<close>

definition toTrackPoint :: "xmlPt \<Rightarrow> point option" where
  "toTrackPoint pt =
     (case (attrLat pt, attrLon pt) of
        (Some la, Some lo) \<Rightarrow>
          Some \<lparr> lat = la, lon = lo, ele = (case eleNode pt of None \<Rightarrow> None | Some e \<Rightarrow> e) \<rparr>
      | _ \<Rightarrow> None)"

definition parseGPXToSegments :: "gpxDoc \<Rightarrow> point list list" where
  "parseGPXToSegments xml =
     (if parserError xml then []
      else if trksegNodes xml \<noteq> []
           then filter (\<lambda>arr. length arr \<ge> 2) (map (List.map_filter toTrackPoint) (trksegNodes xml))
           else (let rtepts = List.map_filter toTrackPoint (rteptNodes xml)
                 in if length rtepts \<ge> 2 then [rtepts] else []))"

record waypoint =
  wpLat :: real
  wpLon :: real
  wpName :: string

text \<open>\<^verbatim>\<open>a?.textContent || b?.textContent || c?.textContent || ""\<close>\<close>

fun firstTruthy :: "string option list \<Rightarrow> string" where
  "firstTruthy [] = []"
| "firstTruthy (None # xs) = firstTruthy xs"
| "firstTruthy (Some t # xs) = (if t \<noteq> [] then t else firstTruthy xs)"

definition namedPoint :: "xmlPt \<Rightarrow> waypoint option" where
  "namedPoint w =
     (case (attrLat w, attrLon w) of
        (Some la, Some lo) \<Rightarrow>
          Some \<lparr> wpLat = la, wpLon = lo, wpName = trim (firstTruthy [nameNode w, cmtNode w, symNode w]) \<rparr>
      | _ \<Rightarrow> None)"

definition namedTrackPoint :: "xmlPt \<Rightarrow> waypoint option" where
  "namedTrackPoint t =
     (case nullish (nullish (nameNode t) (cmtNode t)) (symNode t) of
        None \<Rightarrow> None
      | Some txt \<Rightarrow>
          (case (attrLat t, attrLon t) of
             (Some la, Some lo) \<Rightarrow>
               if trim txt \<noteq> [] then Some \<lparr> wpLat = la, wpLon = lo, wpName = trim txt \<rparr> else None
           | _ \<Rightarrow> None))"

definition parseGPXRoadbooks :: "gpxDoc \<Rightarrow> waypoint list" where
  "parseGPXRoadbooks xml =
     List.map_filter namedPoint (wptNodes xml)
     @ List.map_filter namedPoint (rteptNodes xml)
     @ List.map_filter namedTrackPoint (concat (trksegNodes xml))"

section \<open>Nearest point\<close>

text \<open>
  \<^verbatim>\<open>nearestIndexOnTrack\<close>: the loop state is \<open>(bestIdx, bestD)\<close>, with \<open>None\<close> for the
  \<^verbatim>\<open>Infinity\<close> that \<open>bestD\<close> starts from.
\<close>

definition nearestStep :: "real \<Rightarrow> real \<Rightarrow> (real \<times> real) list \<Rightarrow> nat \<times> real option \<Rightarrow> nat \<Rightarrow> nat \<times> real option" where
  "nearestStep la lo latlngs best i =
     (let d = haversineKm la lo (fst (latlngs ! i)) (snd (latlngs ! i))
      in case snd best of
           None \<Rightarrow> (i, Some d)
         | Some bestD \<Rightarrow> if d < bestD then (i, Some d) else best)"

definition nearestIndexOnTrack :: "real \<Rightarrow> real \<Rightarrow> (real \<times> real) list \<Rightarrow> nat" where
  "nearestIndexOnTrack la lo latlngs =
     fst (foldl (nearestStep la lo latlngs) (0, None) [0..<length latlngs])"

section \<open>The calculate handler\<close>

text \<open>
  What the handler reads from the page: the document parsed from the chosen file (\<open>None\<close> when
  no file is chosen), the import checkbox, and what \<^verbatim>\<open>parseFloat\<close> reads from each field.
\<close>

record calcInputs =
  gpxFile :: "gpxDoc option"
  importRoadbooks :: bool
  speedFlatField :: "real option"
  speedVertField :: "real option"
  downhillFactorField :: "real option"
  spacingMField :: "real option"
  smoothWinMField :: "real option"
  elevDeadbandMField :: "real option"

record calcConfig =
  speedFlatKmh :: real
  speedVertMh :: real
  downhillFactor :: real
  spacingM :: real
  smoothWinM :: real
  elevDeadbandM :: real

definition readConfig :: "calcInputs \<Rightarrow> calcConfig" where
  "readConfig inp =
     \<lparr> speedFlatKmh = toPosNum (speedFlatField inp) 4,
       speedVertMh = toPosNum (speedVertField inp) 300,
       downhillFactor = toPosNum (downhillFactorField inp) 0.6667,
       spacingM = clamp (toPosNum (spacingMField inp) 5) 1 100,
       smoothWinM = clamp (toPosNum (smoothWinMField inp) 35) 5 500,
       elevDeadbandM = clamp (toNonNegNum (elevDeadbandMField inp) 2) 0 20 \<rparr>"

text \<open>The block under \<^verbatim>\<open>// reset globals\<close>.\<close>

definition resetGlobals :: "session \<Rightarrow> session" where
  "resetGlobals st =
     st\<lparr>trackLatLngs := [], trackBreakIdx := [],
        cumDistKm := [0], cumAscentM := [0], cumDescentM := [0], cumTimeH := [0],
        roadbookIdx := [], roadbookLabels := Map.empty, legLabels := Map.empty,
        legStopsMin := Map.empty, legCondPct := Map.empty, legCritical := Map.empty,
        markers := []\<rparr>"

text \<open>
  The carry-forward at a segment boundary: each array gets its own last entry once more.
\<close>

definition carryForward :: "session \<Rightarrow> session" where
  "carryForward st =
     st\<lparr>cumDistKm := cumDistKm st @ [last (cumDistKm st)],
        cumAscentM := cumAscentM st @ [last (cumAscentM st)],
        cumDescentM := cumDescentM st @ [last (cumDescentM st)],
        cumTimeH := cumTimeH st @ [last (cumTimeH st)]\<rparr>"

text \<open>The four pushes that end a round of the inner loop.\<close>

definition pushStep :: "session \<Rightarrow> stepValues \<Rightarrow> session" where
  "pushStep st sv =
     st\<lparr>cumDistKm := cumDistKm st @ [last (cumDistKm st) + stepDistKm sv],
        cumAscentM := cumAscentM st @ [last (cumAscentM st) + stepAscentM sv],
        cumDescentM := cumDescentM st @ [last (cumDescentM st) + stepDescentM sv],
        cumTimeH := cumTimeH st @ [last (cumTimeH st) + stepTimeH sv]\<rparr>"

text \<open>The inner loop, \<^verbatim>\<open>for (let i = 1; i < resampled.length; i++)\<close>.\<close>

definition accumulateSteps :: "calcConfig \<Rightarrow> point list \<Rightarrow> real option list \<Rightarrow> session \<Rightarrow> session" where
  "accumulateSteps cfg resampled elevFiltered st =
     foldl (\<lambda>s i. pushStep s
              (stepOf (speedFlatKmh cfg) (speedVertMh cfg) (downhillFactor cfg)
                 (resampled ! (i - 1)) (resampled ! i) (elevFiltered ! (i - 1)) (elevFiltered ! i)))
       st [1..<length resampled]"

text \<open>
  One round of \<^verbatim>\<open>for (const pts of segments)\<close>. \<open>None\<close> is a resampler that does not return.
  The totals and the debug rows the loop also keeps are read nowhere and are left out.
\<close>

definition processSegment :: "calcConfig \<Rightarrow> point list \<Rightarrow> session \<Rightarrow> session option" where
  "processSegment cfg pts st =
     (if length pts < 2 then Some st
      else case resampleByDistance (fillElevationOnPoints pts) (spacingM cfg) of
             None \<Rightarrow> None
           | Some resampled \<Rightarrow>
               if length resampled < 2 then Some st
               else let winSamples = clampToOdd (max 3 (mathRound (smoothWinM cfg / spacingM cfg))) 3 999;
                        elev = map ele resampled;
                        elevSmooth = medianFilter elev winSamples;
                        elevFiltered = cumulativeDeadbandFilter elevSmooth (elevDeadbandM cfg);
                        st1 = st\<lparr>trackBreakIdx := trackBreakIdx st @ [length (trackLatLngs st)]\<rparr>;
                        st2 = (if length (trackLatLngs st1) > 0 then carryForward st1 else st1);
                        st3 = st2\<lparr>trackLatLngs := trackLatLngs st2 @ map (\<lambda>p. (lat p, lon p)) resampled\<rparr>
                    in Some (accumulateSteps cfg resampled elevFiltered st3))"

fun processSegments :: "calcConfig \<Rightarrow> point list list \<Rightarrow> session \<Rightarrow> session option" where
  "processSegments cfg [] st = Some st"
| "processSegments cfg (pts # segments) st =
     (case processSegment cfg pts st of
        None \<Rightarrow> None
      | Some st' \<Rightarrow> processSegments cfg segments st')"

text \<open>The start and finish roadbooks, and the import of the waypoints of the file.\<close>

definition addStartFinish :: "session \<Rightarrow> session" where
  "addStartFinish st =
     (if length (trackLatLngs st) \<ge> 2
      then addRoadbookIndex (int (length (trackLatLngs st)) - 1) True ''Finish'' True
             (addRoadbookIndex 0 True ''Start'' True st)
      else st)"

definition importWaypoint :: "session \<Rightarrow> waypoint \<Rightarrow> session" where
  "importWaypoint st wp =
     (let idx = int (nearestIndexOnTrack (wpLat wp) (wpLon wp) (trackLatLngs st))
      in if idx \<notin> set (roadbookIdx st)
         then addRoadbookIndex idx True (if wpName wp \<noteq> [] then wpName wp else ''WP'') False st
         else if (case roadbookLabels st idx of None \<Rightarrow> True | Some l \<Rightarrow> l = []) \<and> wpName wp \<noteq> []
              then setRoadbookLabel idx (wpName wp) st
              else st)"

text \<open>
  The click handler of the calculate button. \<open>Inl\<close> is an alert, after which the handler
  returns with the session as it was; \<open>None\<close> is a handler that does not return.
\<close>

definition calculate :: "calcInputs \<Rightarrow> session \<Rightarrow> (string + session) option" where
  "calculate inp st =
     (case gpxFile inp of
        None \<Rightarrow> Some (Inl ''Please upload a GPX file.'')
      | Some xml \<Rightarrow>
          let cfg = readConfig inp
          in if \<not> (speedFlatKmh cfg > 0) \<or> \<not> (speedVertMh cfg > 0) \<or> \<not> (downhillFactor cfg > 0)
             then Some (Inl ''Please provide valid positive numbers for speeds and downhill factor.'')
             else let segments = parseGPXToSegments xml
                  in if length segments = 0 then Some (Inr (st\<lparr>outputEl := OutputNoSegments\<rparr>))
                     else case processSegments cfg segments (resetGlobals st) of
                            None \<Rightarrow> None
                          | Some st1 \<Rightarrow>
                              let st2 = addStartFinish st1;
                                  st3 = (if importRoadbooks inp
                                         then foldl importWaypoint st2 (parseGPXRoadbooks xml)
                                         else st2)
                              in Some (Inr (updateSummaryCard (renderRoadbooksTable st3))))"

section \<open>The deadband rule of the specification\<close>

text \<open>
  Section 4.4 of the specification, written from its words, to be compared with
  \<open>cumulativeDeadbandFilter\<close>. The state of the rule is \<open>(cumErr, output)\<close>; a step adds
  \<open>delta\<close> to \<open>cumErr\<close>, and when \<open>\<bar>cumErr\<bar>\<close> exceeds the deadband the output advances by
  \<open>cumErr - sign cumErr * deadband\<close> and \<open>cumErr\<close> becomes \<open>sign cumErr * deadband\<close>; otherwise the
  output holds.
\<close>

definition specStep :: "real \<Rightarrow> real \<times> real \<Rightarrow> real \<Rightarrow> real \<times> real" where
  "specStep deadband s delta =
     (let cumErr = fst s + delta
      in if \<bar>cumErr\<bar> > deadband
         then (sgn cumErr * deadband, snd s + (cumErr - sgn cumErr * deadband))
         else (cumErr, snd s))"

fun specRun :: "real \<Rightarrow> real \<times> real \<Rightarrow> real list \<Rightarrow> real list" where
  "specRun deadband s [] = []"
| "specRun deadband s (delta # ds) =
     (let s' = specStep deadband s delta in snd s' # specRun deadband s' ds)"

text \<open>The first available (non-null) input elevation.\<close>

definition firstValue :: "real option list \<Rightarrow> real option" where
  "firstValue elev = (case dropWhile (\<lambda>x. x = None) elev of [] \<Rightarrow> None | x # xs \<Rightarrow> x)"

text \<open>
  Nulls carry forward the prior value; the nulls before the first value take the first value.
\<close>

fun carryForwardFill :: "real \<Rightarrow> real option list \<Rightarrow> real list" where
  "carryForwardFill v [] = []"
| "carryForwardFill v (None # xs) = v # carryForwardFill v xs"
| "carryForwardFill v (Some x # xs) = x # carryForwardFill x xs"

fun diffsFrom :: "real \<Rightarrow> real list \<Rightarrow> real list" where
  "diffsFrom p [] = []"
| "diffsFrom p (x # xs) = (x - p) # diffsFrom x xs"

definition specDeltas :: "real \<Rightarrow> real option list \<Rightarrow> real list" where
  "specDeltas f elev = (case carryForwardFill f elev of [] \<Rightarrow> [] | x # xs \<Rightarrow> diffsFrom x xs)"

text \<open>The output of the rule: the first value, then one output per later sample.\<close>

definition specDeadband :: "real \<Rightarrow> real option list \<Rightarrow> real \<Rightarrow> real list" where
  "specDeadband f elev deadband = f # specRun deadband (0, f) (specDeltas f elev)"

text \<open>No null stands between two values, or after a null that follows a value.\<close>

fun somesThenNones :: "real option list \<Rightarrow> bool" where
  "somesThenNones [] = True"
| "somesThenNones (Some x # xs) = somesThenNones xs"
| "somesThenNones (None # xs) = list_all (\<lambda>x. x = None) xs"

fun noInnerGap :: "real option list \<Rightarrow> bool" where
  "noInnerGap [] = True"
| "noInnerGap (None # xs) = noInnerGap xs"
| "noInnerGap (Some x # xs) = somesThenNones xs"

section \<open>Notions for the proofs about the deadband loop\<close>

text \<open>
  The difference the loop of \<open>cumulativeDeadbandFilter\<close> adds to \<open>cumErr\<close> at a sample:
  current minus previous when both are values, zero when either is null.
\<close>

definition pairDelta :: "real option \<Rightarrow> real option \<Rightarrow> real" where
  "pairDelta a b = (case (a, b) of (Some p, Some c) \<Rightarrow> c - p | _ \<Rightarrow> 0)"

fun rawDeltasFrom :: "real option \<Rightarrow> real option list \<Rightarrow> real list" where
  "rawDeltasFrom p [] = []"
| "rawDeltasFrom p (x # xs) = pairDelta p x # rawDeltasFrom x xs"

definition rawDeltas :: "real option list \<Rightarrow> real list" where
  "rawDeltas elev = (case elev of [] \<Rightarrow> [] | x # xs \<Rightarrow> rawDeltasFrom x xs)"

text \<open>The state of the loop before index \<open>k\<close>, and what holds of it.\<close>

definition loopDeltas :: "real option list \<Rightarrow> nat \<Rightarrow> nat \<Rightarrow> real list" where
  "loopDeltas elev i0 k = map (\<lambda>i. pairDelta (elev ! (i - 1)) (elev ! i)) [Suc i0..<k]"

definition loopState :: "real option list \<Rightarrow> real \<Rightarrow> nat \<Rightarrow> real \<Rightarrow> nat \<Rightarrow> real option list \<times> real" where
  "loopState elev d i0 f k =
     foldl (deadbandStep elev d) ((replicate (length elev) None)[i0 := Some f], 0) [Suc i0..<k]"

definition loopInv :: "real option list \<Rightarrow> real \<Rightarrow> nat \<Rightarrow> real \<Rightarrow> nat \<Rightarrow> bool" where
  "loopInv elev d i0 f k =
     (length (fst (loopState elev d i0 f k)) = length elev \<and>
      (\<forall>j < length elev. fst (loopState elev d i0 f k) ! j =
         (if i0 \<le> j \<and> j < k then Some ((f # specRun d (0, f) (loopDeltas elev i0 k)) ! (j - i0)) else None)) \<and>
      snd (loopState elev d i0 f k) = fst (foldl (specStep d) (0, f) (loopDeltas elev i0 k)))"

section \<open>Notions for the properties of the resampler\<close>

text \<open>The total arc length of a segment, in metres: the last entry of \<open>cum\<close>.\<close>

definition totalArc :: "point list \<Rightarrow> real" where
  "totalArc points = last (arcCum points)"

text \<open>
  The arc-length offsets \<open>0, spacing, 2 * spacing, \<dots>\<close> that do not exceed the total, and then the
  total itself when the last of them is less than it.
\<close>

definition offsets :: "real \<Rightarrow> real \<Rightarrow> real list" where
  "offsets totalM spacing =
     map (\<lambda>i. real i * spacing) [0..<Suc (nat \<lfloor>totalM / spacing\<rfloor>)]
     @ (if real (nat \<lfloor>totalM / spacing\<rfloor>) * spacing < totalM then [totalM] else [])"

text \<open>
  The point the body of the loop over the targets builds for \<open>t\<close> when the search for \<open>j\<close>
  starts at 1.
\<close>

definition pointAt :: "point list \<Rightarrow> real list \<Rightarrow> real \<Rightarrow> point" where
  "pointAt points cum t =
     (let j = advance cum t 1
      in if j \<ge> length cum then last points else interpolate points cum j t)"





section \<open>Notions for the properties of the cumulative arrays\<close>




text \<open>Each array of the second session is the array of the first with \<open>n\<close> more entries.\<close>

definition grownBy :: "session \<Rightarrow> session \<Rightarrow> nat \<Rightarrow> bool" where
  "grownBy st st' n =
     ((\<exists>r. cumDistKm st' = cumDistKm st @ r \<and> length r = n) \<and>
      (\<exists>r. cumAscentM st' = cumAscentM st @ r \<and> length r = n) \<and>
      (\<exists>r. cumDescentM st' = cumDescentM st @ r \<and> length r = n) \<and>
      (\<exists>r. cumTimeH st' = cumTimeH st @ r \<and> length r = n))"

text \<open>The arrays a segment's steps are pushed on: after the carry-forward, if there is one.\<close>

definition seamed :: "session \<Rightarrow> session" where
  "seamed st = (if trackLatLngs st = [] then st else carryForward st)"

section \<open>Sessions and inputs used as examples\<close>

text \<open>
  A session with a track of two points and one leg from index 0 to index 1, whose base time is
  2 hours, with 30 minutes of stops and a condition markup of 10 percent.
\<close>

definition twoPointSession :: session where
  "twoPointSession =
     \<lparr> trackLatLngs = [(0, 0), (0, 0)], trackBreakIdx = [0],
       cumDistKm = [0, 8], cumAscentM = [0, 100], cumDescentM = [0, 0], cumTimeH = [0, 2],
       roadbookIdx = [0, 1], roadbookLabels = [0 \<mapsto> ''Start'', 1 \<mapsto> ''Finish''],
       legLabels = Map.empty, legStopsMin = [(0, 1) \<mapsto> 30], legCondPct = [(0, 1) \<mapsto> 10],
       legCritical = Map.empty, markers = [], lastTotalAdjustedH = 0, outputEl = OutputEmpty \<rparr>"

text \<open>The inputs of a run on a file that is not well-formed XML.\<close>

definition brokenFileInputs :: calcInputs where
  "brokenFileInputs =
     \<lparr> gpxFile = Some \<lparr> parserError = True, trksegNodes = [], rteptNodes = [], wptNodes = [] \<rparr>,
       importRoadbooks = True, speedFlatField = Some 4, speedVertField = Some 300,
       downhillFactorField = None, spacingMField = Some 5, smoothWinMField = Some 35,
       elevDeadbandMField = Some 2 \<rparr>"

text \<open>
  A session on a track of eleven points with the waypoints 0, 5 and 10; the waypoint 5 is not
  locked, and both legs carry a custom label, stop minutes and a condition markup, the first
  also the critical flag.
\<close>

definition threeWaypointSession :: session where
  "threeWaypointSession =
     \<lparr> trackLatLngs = replicate 11 (0, 0), trackBreakIdx = [0],
       cumDistKm = [0, 1, 2, 3, 4, 5, 6, 7, 8, 9, 10], cumAscentM = replicate 11 0,
       cumDescentM = replicate 11 0, cumTimeH = [0, 1, 2, 3, 4, 5, 6, 7, 8, 9, 10],
       roadbookIdx = [0, 5, 10],
       roadbookLabels = [0 \<mapsto> ''Start'', 5 \<mapsto> ''Hut'', 10 \<mapsto> ''Finish''],
       legLabels = [(0, 5) \<mapsto> ''Climb'', (5, 10) \<mapsto> ''Ridge''],
       legStopsMin = [(0, 5) \<mapsto> 15, (5, 10) \<mapsto> 20],
       legCondPct = [(0, 5) \<mapsto> 10, (5, 10) \<mapsto> 25],
       legCritical = [(0, 5) \<mapsto> True],
       markers = [\<lparr> markerIdx = 0, markerLocked = True \<rparr>, \<lparr> markerIdx = 10, markerLocked = True \<rparr>,
                  \<lparr> markerIdx = 5, markerLocked = False \<rparr>],
       lastTotalAdjustedH = 0, outputEl = OutputEmpty \<rparr>"

text \<open>
  Two points half the equator apart, and the same segment with the recording going on at the
  last position, at another elevation.
\<close>

definition endPoints :: "point list" where
  "endPoints = [\<lparr> lat = 0, lon = - 90, ele = Some 0 \<rparr>, \<lparr> lat = 0, lon = 90, ele = Some 10 \<rparr>]"


text \<open>
  The default settings with a spacing of 5 metres, and a file with one track segment of two
  points at one position.
\<close>

definition exampleConfig :: calcConfig where
  "exampleConfig =
     \<lparr> speedFlatKmh = 4, speedVertMh = 300, downhillFactor = 0.6667,
       spacingM = 5, smoothWinM = 35, elevDeadbandM = 2 \<rparr>"



section \<open>Basic facts\<close>

lemma upt_1_2: "[1..<2] = [1::nat]"
  by (simp add: upt_rec)

lemma upt_1_3: "[1..<3] = [1, 2::nat]"
  by (simp add: upt_rec)


section \<open>Leg total time\<close>

lemma planLegsFrom_totalH:
  "map pTotalH (planLegsFrom st c1 c2 c3 c4 ks) = map (\<lambda>k. eTotalH (legEntryAt st k)) ks"
  by (induction ks arbitrary: c1 c2 c3 c4) (simp_all add: Let_def planLegAt_def legEntryAt_def)

lemma planLegsFrom_formula:
  "L \<in> set (planLegsFrom st c1 c2 c3 c4 ks) \<Longrightarrow>
     pTotalH L = pBaseH L * (1 + pCondPct L / 100) + pStopsMin L / 60"
  by (induction ks arbitrary: c1 c2 c3 c4) (auto simp add: Let_def planLegAt_def)

lemma legEntryAt_formula:
  "eTotalH (legEntryAt st k) =
     eBaseH (legEntryAt st k) * (1 + eCondPct (legEntryAt st k) / 100) + eStopsMin (legEntryAt st k) / 60"
  by (simp add: legEntryAt_def Let_def)

text \<open>
  C1. Every leg the table renders and every leg the plan serializes has
  \<open>totalH = baseH * (1 + condPct / 100) + stopsMin / 60\<close>: the markup multiplies the base time,
  then the stop minutes are added. A leg with \<open>baseH = 2\<close>, \<open>stopsMin = 30\<close> and \<open>condPct = 10\<close>
  has \<open>totalH = 2.7\<close> exactly, and the two functions give every leg the same total.
\<close>

theorem leg_total_time_composition:
  "(\<forall>L \<in> set (legEntries st).
       eTotalH L = eBaseH L * (1 + eCondPct L / 100) + eStopsMin L / 60 \<and>
       (eBaseH L = 2 \<and> eStopsMin L = 30 \<and> eCondPct L = 10 \<longrightarrow> eTotalH L = 27 / 10)) \<and>
   (\<forall>L \<in> set (serializePlanLegs st).
       pTotalH L = pBaseH L * (1 + pCondPct L / 100) + pStopsMin L / 60 \<and>
       (pBaseH L = 2 \<and> pStopsMin L = 30 \<and> pCondPct L = 10 \<longrightarrow> pTotalH L = 27 / 10)) \<and>
   map pTotalH (serializePlanLegs st) = map eTotalH (legEntries st)"
proof (intro conjI ballI)
  fix L assume "L \<in> set (legEntries st)"
  then obtain k where L: "L = legEntryAt st k"
    by (auto simp add: legEntries_def)
  show f: "eTotalH L = eBaseH L * (1 + eCondPct L / 100) + eStopsMin L / 60"
    unfolding L by (rule legEntryAt_formula)
  show "eBaseH L = 2 \<and> eStopsMin L = 30 \<and> eCondPct L = 10 \<longrightarrow> eTotalH L = 27 / 10"
    using f by simp
next
  fix L assume "L \<in> set (serializePlanLegs st)"
  then show f: "pTotalH L = pBaseH L * (1 + pCondPct L / 100) + pStopsMin L / 60"
    unfolding serializePlanLegs_def by (rule planLegsFrom_formula)
  show "pBaseH L = 2 \<and> pStopsMin L = 30 \<and> pCondPct L = 10 \<longrightarrow> pTotalH L = 27 / 10"
    using f by simp
next
  show "map pTotalH (serializePlanLegs st) = map eTotalH (legEntries st)"
    by (simp add: serializePlanLegs_def legEntries_def planLegsFrom_totalH)
qed

theorem leg_total_time_composition_witness:
  "map eBaseH (legEntries twoPointSession) = [2] \<and>
   map eStopsMin (legEntries twoPointSession) = [30] \<and>
   map eCondPct (legEntries twoPointSession) = [10] \<and>
   map eTotalH (legEntries twoPointSession) = [27 / 10] \<and>
   map pTotalH (serializePlanLegs twoPointSession) = [27 / 10]"
  using leg_total_time_composition [of twoPointSession]
  by (simp add: legEntries_def legEntryAt_def serializePlanLegs_def planLegAt_def
      twoPointSession_def upt_1_2 arrayGet_def orElse_def getLegKey_def Let_def)

section \<open>Per-step time\<close>



text \<open>
  C10. The ascent and the descent of a step come from one signed difference of filtered
  elevations: both are non-negative and at most one of them is not zero. So the condition of
  the downhill discount, \<open>descentM > 0\<close> and \<open>descentM \<ge> ascentM\<close>, says the same as
  \<open>descentM > 0\<close>, and no step has both an ascent and a descent.
\<close>

theorem step_ascent_descent_exclusive:
  "(let s = stepOf sf sv dhf p1 p2 fPrev fCur
    in (stepAscentM s = 0 \<or> stepDescentM s = 0) \<and>
       0 \<le> stepAscentM s \<and> 0 \<le> stepDescentM s \<and>
       ((stepDescentM s > 0 \<and> stepDescentM s \<ge> stepAscentM s) = (stepDescentM s > 0)))"
  by (simp add: stepOf_def Let_def)

section \<open>Deadband filter\<close>

text \<open>
  Both elevation filters return as many values as they are given, so the calculate handler
  reads \<^verbatim>\<open>elevFiltered[i - 1]\<close> and \<^verbatim>\<open>elevFiltered[i]\<close> inside the array.
\<close>

lemma length_medianFilter: "length (medianFilter arr win) = length arr"
  by (simp add: medianFilter_def)

lemma length_deadbandStep: "length (fst (deadbandStep elev d s i)) = length (fst s)"
  by (simp add: deadbandStep_def Let_def)

lemma length_deadband_loop: "length (fst (foldl (deadbandStep elev d) s idxs)) = length (fst s)"
  by (induction idxs arbitrary: s) (simp_all add: length_deadbandStep)

lemma length_backfill: "length (foldl (\<lambda>out k. out[k := out ! i0]) out idxs) = length out"
  by (induction idxs arbitrary: out) simp_all

lemma length_cumulativeDeadbandFilter: "length (cumulativeDeadbandFilter elev d) = length elev"
  by (simp add: cumulativeDeadbandFilter_def Let_def length_backfill length_deadband_loop)

subsection \<open>The rule and the differences\<close>

lemma specRun_snoc:
  "specRun d s (xs @ [x]) = specRun d s xs @ [snd (specStep d (foldl (specStep d) s xs) x)]"
  by (induction xs arbitrary: s) (simp_all add: Let_def)

lemma length_specRun [simp]: "length (specRun d s xs) = length xs"
  by (induction xs arbitrary: s) (simp_all add: Let_def)

lemma last_specRun: "last (snd s # specRun d s xs) = snd (foldl (specStep d) s xs)"
  by (induction xs arbitrary: s) (simp_all add: Let_def)

lemma length_rawDeltasFrom [simp]: "length (rawDeltasFrom p xs) = length xs"
  by (induction xs arbitrary: p) simp_all

lemma nth_rawDeltasFrom:
  "i < length xs \<Longrightarrow> rawDeltasFrom p xs ! i = pairDelta ((p # xs) ! i) (xs ! i)"
  by (induction xs arbitrary: p i) (auto simp add: nth_Cons split: nat.splits)

lemma length_rawDeltas: "length (rawDeltas elev) = length elev - 1"
  by (cases elev) (simp_all add: rawDeltas_def)

lemma nth_rawDeltas:
  "Suc i < length elev \<Longrightarrow> rawDeltas elev ! i = pairDelta (elev ! i) (elev ! Suc i)"
  by (cases elev) (simp_all add: rawDeltas_def nth_rawDeltasFrom)

lemma code_delta:
  "out ! (i - 1) = Some o' \<Longrightarrow>
   toNumber (nullish (elev ! i) (nullish (nullish (elev ! (i - 1)) (elev ! i)) (out ! (i - 1))))
     - toNumber (nullish (nullish (elev ! (i - 1)) (elev ! i)) (out ! (i - 1)))
   = pairDelta (elev ! (i - 1)) (elev ! i)"
  by (cases "elev ! (i - 1)"; cases "elev ! i"; simp add: nullish_def toNumber_def pairDelta_def)

lemma deadbandStep_rule:
  assumes "out ! (i - 1) = Some o'"
  shows "deadbandStep elev d (out, c) i =
     (out[i := Some (snd (specStep d (c, o') (pairDelta (elev ! (i - 1)) (elev ! i))))],
      fst (specStep d (c, o') (pairDelta (elev ! (i - 1)) (elev ! i))))"
proof -
  have "toNumber (out ! (i - 1)) = o'" using assms by (simp add: toNumber_def)
  then show ?thesis
    unfolding deadbandStep_def specStep_def Let_def fst_conv snd_conv code_delta[OF assms]
    using assms by simp
qed

subsection \<open>The search for the first value\<close>

lemma firstIndex_ge: "i \<le> firstIndex elev i"
proof (induction elev i rule: firstIndex.induct)
  case (1 elev i0)
  show ?case
  proof (cases "elev ! i0 = None \<and> i0 < length elev - 1")
    case True
    then have "firstIndex elev i0 = firstIndex elev (Suc i0)" by (subst firstIndex.simps) simp
    with 1 True show ?thesis by simp
  next
    case False
    then have "firstIndex elev i0 = i0" by (subst firstIndex.simps) auto
    then show ?thesis by simp
  qed
qed

lemma firstIndex_skips: "i \<le> j \<Longrightarrow> j < firstIndex elev i \<Longrightarrow> elev ! j = None"
proof (induction elev i rule: firstIndex.induct)
  case (1 elev i0)
  show ?case
  proof (cases "elev ! i0 = None \<and> i0 < length elev - 1")
    case True
    then have eq: "firstIndex elev i0 = firstIndex elev (Suc i0)" by (subst firstIndex.simps) simp
    show ?thesis
    proof (cases "j = i0")
      case True
      with \<open>elev ! i0 = None \<and> i0 < length elev - 1\<close> show ?thesis by simp
    next
      case False
      with 1 True eq show ?thesis by simp
    qed
  next
    case False
    then have "firstIndex elev i0 = i0" by (subst firstIndex.simps) auto
    with 1 show ?thesis by simp
  qed
qed

lemma firstIndex_lt: "i < length elev \<Longrightarrow> firstIndex elev i < length elev"
proof (induction elev i rule: firstIndex.induct)
  case (1 elev i0)
  show ?case
  proof (cases "elev ! i0 = None \<and> i0 < length elev - 1")
    case True
    then have eq: "firstIndex elev i0 = firstIndex elev (Suc i0)" by (subst firstIndex.simps) simp
    from True have "Suc i0 < length elev" by arith
    with 1 True eq show ?thesis by simp
  next
    case False
    then have "firstIndex elev i0 = i0" by (subst firstIndex.simps) auto
    with 1 show ?thesis by simp
  qed
qed

lemma firstIndex_None: "elev ! firstIndex elev i = None \<Longrightarrow> i < length elev \<Longrightarrow> firstIndex elev i = length elev - 1"
proof (induction elev i rule: firstIndex.induct)
  case (1 elev i0)
  show ?case
  proof (cases "elev ! i0 = None \<and> i0 < length elev - 1")
    case True
    then have eq: "firstIndex elev i0 = firstIndex elev (Suc i0)" by (subst firstIndex.simps) simp
    from True have "Suc i0 < length elev" by arith
    with 1 True eq show ?thesis by simp
  next
    case False
    then have eq: "firstIndex elev i0 = i0" by (subst firstIndex.simps) auto
    with 1 False show ?thesis by auto
  qed
qed

lemma deadband_loop:
  assumes i0: "i0 < length elev" and f: "elev ! i0 = Some f"
  shows "Suc i0 + m \<le> length elev \<Longrightarrow> loopInv elev d i0 f (Suc i0 + m)"
proof (induction m)
  case 0
  then show ?case
    using i0 by (auto simp add: loopInv_def loopState_def loopDeltas_def nth_list_update)
next
  case (Suc m)
  define n where "n = Suc i0 + m"
  have nn: "i0 < n" "n < length elev" "Suc i0 \<le> n" using Suc.prems by (simp_all add: n_def)
  have ih: "loopInv elev d i0 f n" using Suc by (simp add: n_def)
  let ?S = "foldl (specStep d) (0, f) (loopDeltas elev i0 n)"
  let ?delta = "pairDelta (elev ! (n - 1)) (elev ! n)"
  let ?R = "\<lambda>k. f # specRun d (0, f) (loopDeltas elev i0 k)"
  have dsS: "loopDeltas elev i0 (Suc n) = loopDeltas elev i0 n @ [?delta]"
    using nn by (simp add: loopDeltas_def)
  have lenR: "length (specRun d (0, f) (loopDeltas elev i0 n)) = n - Suc i0"
    by (simp add: loopDeltas_def)
  have prev: "fst (loopState elev d i0 f n) ! (n - 1) = Some (snd ?S)"
  proof -
    have "fst (loopState elev d i0 f n) ! (n - 1) = Some (?R n ! (n - 1 - i0))"
      using ih nn by (auto simp add: loopInv_def)
    also have "?R n ! (n - 1 - i0) = last (?R n)"
    proof -
      have "last (?R n) = ?R n ! (length (?R n) - 1)" by (rule last_conv_nth) simp
      moreover have "length (?R n) - 1 = n - 1 - i0" using nn lenR by simp
      ultimately show ?thesis by simp
    qed
    also have "\<dots> = snd ?S" using last_specRun[of "(0, f)" d "loopDeltas elev i0 n"] by simp
    finally show ?thesis .
  qed
  have resS: "loopState elev d i0 f (Suc n) =
      deadbandStep elev d (fst (loopState elev d i0 f n), snd (loopState elev d i0 f n)) n"
    using nn by (simp add: loopState_def)
  have sndS: "snd (loopState elev d i0 f n) = fst ?S" using ih by (simp add: loopInv_def)
  have step: "loopState elev d i0 f (Suc n) =
      ((fst (loopState elev d i0 f n))[n := Some (snd (specStep d ?S ?delta))], fst (specStep d ?S ?delta))"
    unfolding resS using deadbandStep_rule[OF prev, of elev d "snd (loopState elev d i0 f n)"] sndS by simp
  have RS: "?R (Suc n) = ?R n @ [snd (specStep d ?S ?delta)]"
    by (simp add: dsS specRun_snoc)
  have len: "length (fst (loopState elev d i0 f n)) = length elev" using ih by (simp add: loopInv_def)
  have "loopInv elev d i0 f (Suc n)"
    unfolding loopInv_def
  proof (intro conjI allI impI)
    show "length (fst (loopState elev d i0 f (Suc n))) = length elev" using len by (simp add: step)
  next
    show "snd (loopState elev d i0 f (Suc n)) = fst (foldl (specStep d) (0, f) (loopDeltas elev i0 (Suc n)))"
      by (simp add: step dsS)
  next
    fix j assume j: "j < length elev"
    show "fst (loopState elev d i0 f (Suc n)) ! j =
            (if i0 \<le> j \<and> j < Suc n then Some (?R (Suc n) ! (j - i0)) else None)"
    proof (cases "j = n")
      case True
      have "?R (Suc n) ! (n - i0) = snd (specStep d ?S ?delta)"
        unfolding RS using nn lenR by (simp add: nth_append)
      with True nn len show ?thesis by (simp add: step)
    next
      case False
      have a: "?R (Suc n) ! (j - i0) = ?R n ! (j - i0)" if "j < n" "i0 \<le> j"
      proof -
        have "j - i0 < length (?R n)" using that lenR nn by simp
        then have "(?R n @ [snd (specStep d ?S ?delta)]) ! (j - i0) = ?R n ! (j - i0)"
          by (rule nth_append_left)
        then show ?thesis by (simp only: RS)
      qed
      have b: "fst (loopState elev d i0 f n) ! j =
         (if i0 \<le> j \<and> j < n then Some (?R n ! (j - i0)) else None)"
        using ih j by (simp add: loopInv_def)
      from False j a b show ?thesis by (auto simp add: step)
    qed
  qed
  then show ?case by (simp add: n_def)
qed

lemma backfill:
  "m \<le> i0 \<Longrightarrow> i0 < length out \<Longrightarrow>
   length (foldl (\<lambda>out k. out[k := out ! i0]) out [0..<m]) = length out \<and>
   (\<forall>j < length out. foldl (\<lambda>out k. out[k := out ! i0]) out [0..<m] ! j = (if j < m then out ! i0 else out ! j))"
proof (induction m)
  case 0
  then show ?case by simp
next
  case (Suc m)
  then have ih: "length (foldl (\<lambda>out k. out[k := out ! i0]) out [0..<m]) = length out"
    "\<And>j. j < length out \<Longrightarrow> foldl (\<lambda>out k. out[k := out ! i0]) out [0..<m] ! j = (if j < m then out ! i0 else out ! j)"
    by simp_all
  from Suc.prems have "m < i0" by simp
  with Suc.prems ih show ?case by (auto simp add: nth_list_update)
qed

lemma firstValue_index:
  assumes "firstValue elev = Some f"
  shows "\<exists>i0. i0 < length elev \<and> elev ! i0 = Some f \<and> (\<forall>j < i0. elev ! j = None)"
proof -
  let ?P = "\<lambda>x::real option. x = None"
  let ?tw = "takeWhile ?P elev"
  from assms obtain rest where dw: "dropWhile ?P elev = Some f # rest"
    by (auto simp add: firstValue_def split: list.splits)
  have el: "elev = ?tw @ Some f # rest"
    using takeWhile_dropWhile_id[of ?P elev] dw by simp
  have 1: "length ?tw < length elev"
  proof -
    have "length elev = length (?tw @ Some f # rest)" using el by simp
    then show ?thesis by simp
  qed
  have 2: "elev ! length ?tw = Some f"
  proof -
    have "(?tw @ Some f # rest) ! length ?tw = Some f" by (rule nth_append_length)
    then show ?thesis using el by simp
  qed
  have 3: "\<forall>j < length ?tw. elev ! j = None"
  proof (intro allI impI)
    fix j assume j: "j < length ?tw"
    then have "?tw ! j \<in> set ?tw" by (rule nth_mem)
    then have "?tw ! j = None" by (auto dest: set_takeWhileD)
    moreover have "?tw ! j = elev ! j" using j by (rule takeWhile_nth)
    ultimately show "elev ! j = None" by simp
  qed
  from 1 2 3 show ?thesis by blast
qed

lemma firstIndex_first:
  assumes "i0 < length elev" "elev ! i0 = Some f" "\<And>j. j < i0 \<Longrightarrow> elev ! j = None"
  shows "firstIndex elev 0 = i0"
proof -
  let ?k = "firstIndex elev 0"
  have le: "?k \<le> i0"
  proof (rule ccontr)
    assume "\<not> ?k \<le> i0"
    then have "i0 < ?k" by simp
    then have "elev ! i0 = None" using firstIndex_skips[of 0 i0 elev] by simp
    with assms(2) show False by simp
  qed
  have nn: "elev ! ?k \<noteq> None"
  proof
    assume n: "elev ! ?k = None"
    moreover have "0 < length elev" using assms(1) by linarith
    ultimately have "?k = length elev - 1" by (rule firstIndex_None)
    with le assms(1) have "?k = i0" by linarith
    with n assms(2) show False by simp
  qed
  have "\<not> ?k < i0"
  proof
    assume "?k < i0"
    then have "elev ! ?k = None" by (rule assms(3))
    with nn show False by simp
  qed
  with le show ?thesis by simp
qed

lemma specStep_zero: "specStep d (0, f) 0 = (0, f)"
  by (simp add: specStep_def)

lemma specRun_zeros: "specRun d (0, f) (replicate m 0 @ ds) = replicate m f @ specRun d (0, f) ds"
  by (induction m) (simp_all add: specStep_zero)

lemma rawDeltas_split:
  assumes "i0 < length elev" "\<And>j. j < i0 \<Longrightarrow> elev ! j = None"
  shows "rawDeltas elev = replicate i0 0 @ loopDeltas elev i0 (length elev)"
proof (rule nth_equalityI)
  show "length (rawDeltas elev) = length (replicate i0 0 @ loopDeltas elev i0 (length elev))"
    using assms by (simp add: length_rawDeltas loopDeltas_def)
next
  fix j assume "j < length (rawDeltas elev)"
  then have j: "Suc j < length elev" by (simp add: length_rawDeltas)
  show "rawDeltas elev ! j = (replicate i0 0 @ loopDeltas elev i0 (length elev)) ! j"
  proof (cases "j < i0")
    case True
    with assms j show ?thesis by (simp add: nth_rawDeltas nth_append pairDelta_def)
  next
    case False
    then have "[Suc i0..<length elev] ! (j - i0) = Suc j" using j by simp
    with False j show ?thesis by (simp add: nth_rawDeltas nth_append loopDeltas_def)
  qed
qed

lemma deadband_run:
  assumes "firstValue elev = Some f"
  shows "cumulativeDeadbandFilter elev d = map Some (f # specRun d (0, f) (rawDeltas elev))"
proof -
  from firstValue_index[OF assms] obtain i0
    where i0: "i0 < length elev" "elev ! i0 = Some f" "\<And>j. j < i0 \<Longrightarrow> elev ! j = None"
    by blast
  have fi: "firstIndex elev 0 = i0" using i0 by (rule firstIndex_first)
  let ?n = "length elev"
  let ?R = "f # specRun d (0, f) (loopDeltas elev i0 ?n)"
  have eqn: "Suc i0 + (?n - Suc i0) = ?n" using i0(1) by arith
  then have "Suc i0 + (?n - Suc i0) \<le> ?n" by simp
  then have "loopInv elev d i0 f (Suc i0 + (?n - Suc i0))" by (rule deadband_loop[OF i0(1,2)])
  then have inv: "loopInv elev d i0 f ?n" by (simp only: eqn)
  let ?out1 = "fst (loopState elev d i0 f ?n)"
  have len1: "length ?out1 = ?n" using inv by (simp add: loopInv_def)
  have nth1: "\<And>j. j < ?n \<Longrightarrow> ?out1 ! j = (if i0 \<le> j then Some (?R ! (j - i0)) else None)"
    using inv by (simp add: loopInv_def)
  let ?res = "foldl (\<lambda>out k. out[k := out ! i0]) ?out1 [0..<i0]"
  have ne: "length elev \<noteq> 0" using i0(1) by linarith
  have code: "cumulativeDeadbandFilter elev d = ?res"
    using i0(2) ne by (simp add: cumulativeDeadbandFilter_def fi loopState_def Let_def)
  have bf: "length ?res = ?n" "\<And>j. j < ?n \<Longrightarrow> ?res ! j = (if j < i0 then ?out1 ! i0 else ?out1 ! j)"
    using backfill[of i0 i0 ?out1] i0 len1 by simp_all
  have lenR: "length ?R = ?n - i0" using i0 by (simp add: loopDeltas_def)
  have "?res = map Some (replicate i0 f @ ?R)"
  proof (rule nth_equalityI)
    show "length ?res = length (map Some (replicate i0 f @ ?R))" using bf(1) lenR i0 by simp
  next
    fix j assume "j < length ?res"
    then have j: "j < ?n" using bf(1) by simp
    have jl: "j < length (replicate i0 f @ ?R)" using j lenR i0(1) by simp
    have m: "map Some (replicate i0 f @ ?R) ! j = Some ((replicate i0 f @ ?R) ! j)"
      using jl by (rule nth_map)
    show "?res ! j = map Some (replicate i0 f @ ?R) ! j"
    proof (cases "j < i0")
      case True
      then have "(replicate i0 f @ ?R) ! j = f" by (simp add: nth_append)
      moreover have "?res ! j = Some f" using True bf(2)[OF j] nth1[OF i0(1)] by simp
      ultimately show ?thesis using m by simp
    next
      case False
      then have "(replicate i0 f @ ?R) ! j = ?R ! (j - i0)" by (simp add: nth_append)
      moreover have "?res ! j = Some (?R ! (j - i0))" using False bf(2)[OF j] nth1[OF j] by simp
      ultimately show ?thesis using m by simp
    qed
  qed
  moreover have "replicate i0 f @ ?R = f # specRun d (0, f) (rawDeltas elev)"
  proof -
    have "specRun d (0, f) (rawDeltas elev) = replicate i0 f @ specRun d (0, f) (loopDeltas elev i0 ?n)"
      by (simp only: rawDeltas_split[OF i0(1) i0(3)] specRun_zeros)
    moreover have "replicate i0 f @ ?R = f # replicate i0 f @ specRun d (0, f) (loopDeltas elev i0 ?n)"
      by (rule replicate_app_Cons_same)
    ultimately show ?thesis by simp
  qed
  ultimately show ?thesis using code by simp
qed

subsection \<open>Inputs without an inner gap\<close>

lemma deltas_nones:
  "list_all (\<lambda>x. x = None) xs \<Longrightarrow> rawDeltasFrom p xs = diffsFrom v (carryForwardFill v xs)"
  by (induction xs arbitrary: p) (auto simp add: pairDelta_def split: option.splits)

lemma deltas_somes:
  "somesThenNones xs \<Longrightarrow> rawDeltasFrom (Some v) xs = diffsFrom v (carryForwardFill v xs)"
proof (induction xs arbitrary: v)
  case Nil
  then show ?case by simp
next
  case (Cons x xs)
  show ?case
  proof (cases x)
    case None
    with Cons.prems have "list_all (\<lambda>x. x = None) xs" by simp
    then have "rawDeltasFrom None xs = diffsFrom v (carryForwardFill v xs)" by (rule deltas_nones)
    with None show ?thesis by (simp add: pairDelta_def)
  next
    case (Some y)
    with Cons show ?thesis by (simp add: pairDelta_def)
  qed
qed

lemma firstValue_Cons_None [simp]: "firstValue (None # xs) = firstValue xs"
  by (simp add: firstValue_def)

lemma firstValue_Cons_Some [simp]: "firstValue (Some x # xs) = Some x"
  by (simp add: firstValue_def)

lemma firstValue_Nil [simp]: "firstValue [] = None"
  by (simp add: firstValue_def)

lemma deltas_leading:
  "noInnerGap xs \<Longrightarrow> firstValue xs = Some f \<Longrightarrow>
   rawDeltasFrom None xs = diffsFrom f (carryForwardFill f xs)"
proof (induction xs)
  case Nil
  then show ?case by simp
next
  case (Cons x xs)
  show ?case
  proof (cases x)
    case None
    with Cons show ?thesis by (simp add: pairDelta_def)
  next
    case (Some y)
    with Cons.prems have y: "y = f" and s: "somesThenNones xs" by simp_all
    from s have "rawDeltasFrom (Some f) xs = diffsFrom f (carryForwardFill f xs)" by (rule deltas_somes)
    with Some y show ?thesis by (simp add: pairDelta_def)
  qed
qed

lemma rawDeltas_spec:
  assumes "noInnerGap elev" "firstValue elev = Some f"
  shows "rawDeltas elev = specDeltas f elev"
proof (cases elev)
  case Nil
  then show ?thesis by (simp add: rawDeltas_def specDeltas_def)
next
  case (Cons x xs)
  show ?thesis
  proof (cases x)
    case None
    with Cons assms have "noInnerGap xs" "firstValue xs = Some f" by simp_all
    then have "rawDeltasFrom None xs = diffsFrom f (carryForwardFill f xs)" by (rule deltas_leading)
    with Cons None show ?thesis by (simp add: rawDeltas_def specDeltas_def)
  next
    case (Some y)
    with Cons assms have y: "y = f" and s: "somesThenNones xs" by simp_all
    from s have "rawDeltasFrom (Some f) xs = diffsFrom f (carryForwardFill f xs)" by (rule deltas_somes)
    with Cons Some y show ?thesis by (simp add: rawDeltas_def specDeltas_def)
  qed
qed




text \<open>
  C3, amended. For an elevation sequence with a first value \<open>f\<close>, the filter gives \<open>f\<close> and
  then runs the update of the specification (add \<open>delta\<close> to \<open>cumErr\<close>; beyond the deadband
  release \<open>cumErr - sign cumErr * deadband\<close> and keep \<open>sign cumErr * deadband\<close>; otherwise hold) on
  the differences \<open>rawDeltas\<close>: current minus previous where both are values, zero where either
  is null. On a sequence without an inner gap these are the differences of the sequence with
  its nulls carried forward, and the filter is the rule of the specification.
\<close>

theorem deadband_update_rule:
  assumes "firstValue elev = Some f"
  shows "cumulativeDeadbandFilter elev deadband =
           map Some (f # specRun deadband (0, f) (rawDeltas elev)) \<and>
         (noInnerGap elev \<longrightarrow>
            cumulativeDeadbandFilter elev deadband = map Some (specDeadband f elev deadband))"
  using deadband_run[OF assms] rawDeltas_spec[OF _ assms] by (simp add: specDeadband_def)

theorem deadband_update_rule_witness:
  "firstValue [None, Some 5, Some 9, Some 8, None] = Some 5 \<and>
   noInnerGap [None, Some 5, Some 9, Some 8, None] \<and>
   cumulativeDeadbandFilter [None, Some 5, Some 9, Some 8, None] 1 =
     [Some 5, Some 5, Some 8, Some 8, Some 8]"
  using deadband_update_rule [of "[None, Some 5, Some 9, Some 8, None]" 5 1]
  by (simp add: specDeadband_def specDeltas_def specStep_def rawDeltas_def pairDelta_def)

text \<open>
  C3 as stated fails where a value follows a null: with a deadband of 1 the filter holds 5 on
  \<open>[5, null, 9]\<close>, where the rule of the specification, carrying 5 forward, releases 8.
\<close>

theorem deadband_update_rule_counterexample:
  "cumulativeDeadbandFilter [Some 5, None, Some 9] 1 = [Some 5, Some 5, Some 5] \<and>
   map Some (specDeadband 5 [Some 5, None, Some 9] 1) = [Some 5, Some 5, Some 8]"
  by (simp add: cumulativeDeadbandFilter_def firstIndex.simps deadbandStep_def nullish_def
      toNumber_def upt_rec Let_def specDeadband_def specDeltas_def specStep_def)




section \<open>Fields the table and the summary leave alone\<close>

lemma updateSummaryCard_fields [simp]:
  "trackLatLngs (updateSummaryCard st) = trackLatLngs st"
  "cumDistKm (updateSummaryCard st) = cumDistKm st"
  "cumAscentM (updateSummaryCard st) = cumAscentM st"
  "cumDescentM (updateSummaryCard st) = cumDescentM st"
  "cumTimeH (updateSummaryCard st) = cumTimeH st"
  "roadbookIdx (updateSummaryCard st) = roadbookIdx st"
  "roadbookLabels (updateSummaryCard st) = roadbookLabels st"
  "legLabels (updateSummaryCard st) = legLabels st"
  "legStopsMin (updateSummaryCard st) = legStopsMin st"
  "legCondPct (updateSummaryCard st) = legCondPct st"
  "legCritical (updateSummaryCard st) = legCritical st"
  "markers (updateSummaryCard st) = markers st"
  by (simp_all add: updateSummaryCard_def Let_def)

lemma renderRoadbooksTable_fields [simp]:
  "trackLatLngs (renderRoadbooksTable st) = trackLatLngs st"
  "cumDistKm (renderRoadbooksTable st) = cumDistKm st"
  "cumAscentM (renderRoadbooksTable st) = cumAscentM st"
  "cumDescentM (renderRoadbooksTable st) = cumDescentM st"
  "cumTimeH (renderRoadbooksTable st) = cumTimeH st"
  "roadbookIdx (renderRoadbooksTable st) = roadbookIdx st"
  "roadbookLabels (renderRoadbooksTable st) = roadbookLabels st"
  "legLabels (renderRoadbooksTable st) = legLabels st"
  "legStopsMin (renderRoadbooksTable st) = legStopsMin st"
  "legCondPct (renderRoadbooksTable st) = legCondPct st"
  "legCritical (renderRoadbooksTable st) = legCritical st"
  "markers (renderRoadbooksTable st) = markers st"
  by (simp_all add: renderRoadbooksTable_def Let_def)

section \<open>The calculate handler\<close>

lemma toPosNum_pos: "0 < d \<Longrightarrow> 0 < toPosNum v d"
  by (simp add: toPosNum_def split: option.splits)

lemma readConfig_valid:
  "0 < speedFlatKmh (readConfig inp) \<and> 0 < speedVertMh (readConfig inp) \<and> 0 < downhillFactor (readConfig inp)
   \<and> 1 \<le> spacingM (readConfig inp) \<and> spacingM (readConfig inp) \<le> 100"
  by (simp add: readConfig_def toPosNum_pos clamp_def)

text \<open>
  C9. When the file is not well-formed XML, or parsing gives no usable segment, the handler
  shows the message that no track segments were found and returns: the session is the one
  before the click with only the message changed, so the trajectory, the cumulative arrays and
  the waypoint and leg overrides are as they were.
\<close>

theorem no_segments_leaves_session:
  assumes "gpxFile inp = Some xml" "parserError xml \<or> parseGPXToSegments xml = []"
  shows "calculate inp st = Some (Inr (st\<lparr>outputEl := OutputNoSegments\<rparr>))"
proof -
  have "parseGPXToSegments xml = []" using assms(2) by (auto simp add: parseGPXToSegments_def)
  then show ?thesis using assms(1) readConfig_valid[of inp]
    by (simp add: calculate_def Let_def)
qed

theorem no_segments_leaves_session_witness:
  "calculate brokenFileInputs twoPointSession =
     Some (Inr (twoPointSession\<lparr>outputEl := OutputNoSegments\<rparr>))"
  using no_segments_leaves_session [of brokenFileInputs
      "\<lparr> parserError = True, trksegNodes = [], rteptNodes = [], wptNodes = [] \<rparr>" twoPointSession]
  by (simp add: brokenFileInputs_def)

section \<open>Removing a waypoint\<close>

text \<open>
  C8 on the code. Removing the unlocked waypoint 5 of \<open>threeWaypointSession\<close> deletes the custom
  labels of the legs \<open>(0, 5)\<close> and \<open>(5, 10)\<close>, and leaves their stop minutes, their condition
  markups and the critical flag in the maps: the handler deletes only the key \<open>(5, 6)\<close> of
  \<open>legStopsMin\<close> and \<open>legCondPct\<close>, and nothing of \<open>legCritical\<close>. The leg \<open>(0, 10)\<close> that spans
  the gap has the defaults; adding the waypoint 5 again brings the old values back.
\<close>

theorem waypoint_removal_keeps_overrides:
  "roadbookIdx (markerClick \<lparr> markerIdx = 5, markerLocked = False \<rparr> threeWaypointSession) = [0, 10] \<and>
   legLabels (markerClick \<lparr> markerIdx = 5, markerLocked = False \<rparr> threeWaypointSession) (0, 5) = None \<and>
   legLabels (markerClick \<lparr> markerIdx = 5, markerLocked = False \<rparr> threeWaypointSession) (5, 10) = None \<and>
   legStopsMin (markerClick \<lparr> markerIdx = 5, markerLocked = False \<rparr> threeWaypointSession) (0, 5) = Some 15 \<and>
   legStopsMin (markerClick \<lparr> markerIdx = 5, markerLocked = False \<rparr> threeWaypointSession) (5, 10) = Some 20 \<and>
   legCondPct (markerClick \<lparr> markerIdx = 5, markerLocked = False \<rparr> threeWaypointSession) (0, 5) = Some 10 \<and>
   legCondPct (markerClick \<lparr> markerIdx = 5, markerLocked = False \<rparr> threeWaypointSession) (5, 10) = Some 25 \<and>
   legCritical (markerClick \<lparr> markerIdx = 5, markerLocked = False \<rparr> threeWaypointSession) (0, 5) = Some True \<and>
   map eStopsMin (legEntries (markerClick \<lparr> markerIdx = 5, markerLocked = False \<rparr> threeWaypointSession)) = [0] \<and>
   map eCondPct (legEntries (markerClick \<lparr> markerIdx = 5, markerLocked = False \<rparr> threeWaypointSession)) = [0] \<and>
   map eStopsMin (legEntries (addRoadbookIndex 5 True [] False
       (markerClick \<lparr> markerIdx = 5, markerLocked = False \<rparr> threeWaypointSession))) = [15, 20] \<and>
   map eCondPct (legEntries (addRoadbookIndex 5 True [] False
       (markerClick \<lparr> markerIdx = 5, markerLocked = False \<rparr> threeWaypointSession))) = [10, 25]"
  by (simp add: markerClick_def threeWaypointSession_def legEntries_def legEntryAt_def upt_1_2 upt_1_3
      addRoadbookIndex_def getLegKey_def orElse_def arrayGet_def Let_def)

section \<open>Great-circle distance\<close>

lemma sin_half_sq: "(sin (x / 2))\<^sup>2 = (1 - cos x) / 2" for x :: real
  using cos_double_sin[of "x / 2"] by simp

lemma two_mult_abs_le: "2 * \<bar>x * y\<bar> \<le> x\<^sup>2 + y\<^sup>2" for x y :: real
proof -
  have "0 \<le> (\<bar>x\<bar> - \<bar>y\<bar>)\<^sup>2" by simp
  then show ?thesis by (simp add: power2_diff abs_mult algebra_simps)
qed

lemma dot_bound:
  fixes p1 p2 k :: real
  assumes "\<bar>k\<bar> \<le> 1"
  shows "\<bar>sin p1 * sin p2 + cos p1 * cos p2 * k\<bar> \<le> 1"
proof -
  have s: "2 * \<bar>sin p1 * sin p2\<bar> \<le> (sin p1)\<^sup>2 + (sin p2)\<^sup>2" by (rule two_mult_abs_le)
  have c: "2 * \<bar>cos p1 * cos p2\<bar> \<le> (cos p1)\<^sup>2 + (cos p2)\<^sup>2" by (rule two_mult_abs_le)
  have "(sin p1)\<^sup>2 + (cos p1)\<^sup>2 = 1" "(sin p2)\<^sup>2 + (cos p2)\<^sup>2 = 1" by simp_all
  with s c have sum: "\<bar>sin p1 * sin p2\<bar> + \<bar>cos p1 * cos p2\<bar> \<le> 1" by linarith
  have "\<bar>cos p1 * cos p2 * k\<bar> = \<bar>cos p1 * cos p2\<bar> * \<bar>k\<bar>" by (simp add: abs_mult)
  also have "\<dots> \<le> \<bar>cos p1 * cos p2\<bar> * 1" using assms by (intro mult_left_mono) simp_all
  finally have "\<bar>cos p1 * cos p2 * k\<bar> \<le> \<bar>cos p1 * cos p2\<bar>" by simp
  with sum show ?thesis by linarith
qed

lemma havA_eq:
  "havA lat1 lon1 lat2 lon2 =
     (1 - (sin (toRad lat1) * sin (toRad lat2)
           + cos (toRad lat1) * cos (toRad lat2) * cos (toRad (lon2 - lon1)))) / 2"
proof -
  have d: "toRad (lat2 - lat1) = toRad lat2 - toRad lat1"
    by (simp add: toRad_def algebra_simps diff_divide_distrib)
  define s1 where "s1 = sin (toRad lat1)"
  define s2 where "s2 = sin (toRad lat2)"
  define c1 where "c1 = cos (toRad lat1)"
  define c2 where "c2 = cos (toRad lat2)"
  define k where "k = cos (toRad (lon2 - lon1))"
  have "havA lat1 lon1 lat2 lon2 = (1 - (c2 * c1 + s2 * s1)) / 2 + c1 * c2 * ((1 - k) / 2)"
    unfolding havA_def Let_def sin_half_sq d cos_diff s1_def s2_def c1_def c2_def k_def ..
  also have "\<dots> = (1 - (s1 * s2 + c1 * c2 * k)) / 2"
    by (simp add: field_simps)
  finally show ?thesis unfolding s1_def s2_def c1_def c2_def k_def .
qed

lemma havA_range: "0 \<le> havA lat1 lon1 lat2 lon2 \<and> havA lat1 lon1 lat2 lon2 \<le> 1"
proof -
  define X where "X = sin (toRad lat1) * sin (toRad lat2)
           + cos (toRad lat1) * cos (toRad lat2) * cos (toRad (lon2 - lon1))"
  have "\<bar>cos (toRad (lon2 - lon1))\<bar> \<le> 1" by simp
  then have "\<bar>X\<bar> \<le> 1" unfolding X_def by (rule dot_bound)
  then have "- 1 \<le> X \<and> X \<le> 1" by (simp add: abs_le_iff)
  moreover have "havA lat1 lon1 lat2 lon2 = (1 - X) / 2" unfolding X_def by (rule havA_eq)
  ultimately show ?thesis by simp
qed

lemma atan2_nonneg: "0 \<le> y \<Longrightarrow> 0 \<le> atan2 y x"
proof -
  assume y: "0 \<le> y"
  have "- (pi / 2) < arctan (y / x)" by (rule arctan_lbound)
  then have "0 \<le> arctan (y / x) + pi" using pi_gt_zero by linarith
  moreover have "0 < x \<Longrightarrow> 0 \<le> arctan (y / x)" using y by (simp add: zero_le_arctan_iff)
  ultimately show ?thesis using y pi_gt_zero by (auto simp add: atan2_def)
qed

lemma haversineKm_nonneg: "0 \<le> haversineKm lat1 lon1 lat2 lon2"
proof -
  have "0 \<le> sqrt (havA lat1 lon1 lat2 lon2)" using havA_range by simp
  then have "0 \<le> atan2 (sqrt (havA lat1 lon1 lat2 lon2)) (sqrt (1 - havA lat1 lon1 lat2 lon2))"
    by (rule atan2_nonneg)
  then show ?thesis by (simp add: haversineKm_def Let_def)
qed

subsection \<open>Distance 0\<close>











section \<open>Distance resampler\<close>

subsection \<open>The targets\<close>

lemma targetsLoop_run:
  assumes sp: "0 < sp"
  shows "tot < s + real k * sp \<Longrightarrow>
         \<exists>m. targetsLoop tot sp s acc = Some (acc @ map (\<lambda>i. s + real i * sp) [0..<m]) \<and>
             (m = 0 \<longrightarrow> tot < s) \<and> (0 < m \<longrightarrow> s + real (m - 1) * sp \<le> tot) \<and>
             tot < s + real m * sp"
proof (induction k arbitrary: s acc)
  case 0
  then have "tot < s" by simp
  then have "targetsLoop tot sp s acc = Some acc" by (subst targetsLoop.simps) simp
  with \<open>tot < s\<close> show ?case by (intro exI[of _ 0]) simp
next
  case (Suc k)
  show ?case
  proof (cases "s \<le> tot")
    case False
    then have "targetsLoop tot sp s acc = Some acc" by (subst targetsLoop.simps) simp
    with False show ?thesis by (intro exI[of _ 0]) simp
  next
    case True
    then have unf: "targetsLoop tot sp s acc = targetsLoop tot sp (s + sp) (acc @ [s])"
      by (subst targetsLoop.simps) simp
    have "tot < (s + sp) + real k * sp" using Suc.prems by (simp add: algebra_simps)
    from Suc.IH[OF this, of "acc @ [s]"] obtain m where
      m: "targetsLoop tot sp (s + sp) (acc @ [s]) = Some ((acc @ [s]) @ map (\<lambda>i. s + sp + real i * sp) [0..<m])"
        "0 < m \<longrightarrow> s + sp + real (m - 1) * sp \<le> tot" "tot < s + sp + real m * sp"
      by blast
    have "map (\<lambda>i. s + real i * sp) [0..<Suc m] = s # map (\<lambda>i. s + sp + real i * sp) [0..<m]"
      by (simp add: upt_conv_Cons map_Suc_upt[symmetric] algebra_simps del: upt_Suc)
    then have 1: "targetsLoop tot sp s acc = Some (acc @ map (\<lambda>i. s + real i * sp) [0..<Suc m])"
      using unf m(1) by simp
    have 2: "s + real (Suc m - 1) * sp \<le> tot"
    proof (cases m)
      case 0
      with True show ?thesis by simp
    next
      case (Suc m')
      with m(2) show ?thesis by (simp add: algebra_simps)
    qed
    have 3: "tot < s + real (Suc m) * sp" using m(3) by (simp add: algebra_simps)
    from 1 2 3 show ?thesis by (intro exI[of _ "Suc m"]) simp
  qed
qed

lemma floor_bounds_unique:
  fixes x sp :: real
  assumes "0 < sp" "real m * sp \<le> x" "x < real (Suc m) * sp"
  shows "nat \<lfloor>x / sp\<rfloor> = m"
proof -
  have "real m \<le> x / sp" using assms by (simp add: pos_le_divide_eq)
  moreover have "x / sp < real m + 1" using assms by (simp add: pos_divide_less_eq algebra_simps)
  ultimately have "\<lfloor>x / sp\<rfloor> = int m" by (intro floor_unique) simp_all
  then show ?thesis by simp
qed

lemma targetsLoop_returns:
  assumes "0 < sp" "0 \<le> tot"
  shows "targetsLoop tot sp 0 [] = Some (map (\<lambda>i. real i * sp) [0..<Suc (nat \<lfloor>tot / sp\<rfloor>)])"
proof -
  obtain k where "tot < real k * sp" using reals_Archimedean3[OF assms(1)] by blast
  then have "tot < 0 + real k * sp" by simp
  from targetsLoop_run[OF assms(1) this, of "[]"] obtain m where
    m: "targetsLoop tot sp 0 [] = Some (map (\<lambda>i. real i * sp) [0..<m])"
       "m = 0 \<longrightarrow> tot < 0" "0 < m \<longrightarrow> real (m - 1) * sp \<le> tot" "tot < real m * sp"
    by auto
  from m(2) assms(2) have "0 < m" by auto
  then obtain m' where m': "m = Suc m'" by (cases m) simp_all
  with m(3,4) have "real m' * sp \<le> tot" "tot < real (Suc m') * sp" by simp_all
  with assms(1) have "nat \<lfloor>tot / sp\<rfloor> = m'" by (rule floor_bounds_unique)
  with m(1) m' show ?thesis by simp
qed

lemma closeTargets_offsets:
  "closeTargets tot (map (\<lambda>i. real i * sp) [0..<Suc (nat \<lfloor>tot / sp\<rfloor>)]) = offsets tot sp"
proof -
  let ?m = "nat \<lfloor>tot / sp\<rfloor>"
  have "map (\<lambda>i. real i * sp) [0..<Suc ?m] = map (\<lambda>i. real i * sp) [0..<?m] @ [real ?m * sp]"
    by simp
  then show ?thesis
    by (simp add: closeTargets_def offsets_def split: list.splits)
qed

subsection \<open>The arc-length array\<close>



lemma cumFrom_ge: "x \<in> set (cumFrom c ps) \<Longrightarrow> c \<le> x"
proof (induction c ps arbitrary: x rule: cumFrom.induct)
  case (1 c p q ps)
  have d: "0 \<le> haversineKm (lat p) (lon p) (lat q) (lon q) * 1000"
    using haversineKm_nonneg[of "lat p" "lon p" "lat q" "lon q"] by simp
  from "1.prems" have "x = c + haversineKm (lat p) (lon p) (lat q) (lon q) * 1000 \<or>
      x \<in> set (cumFrom (c + haversineKm (lat p) (lon p) (lat q) (lon q) * 1000) (q # ps))"
    by (simp add: Let_def)
  then show ?case
  proof
    assume "x = c + haversineKm (lat p) (lon p) (lat q) (lon q) * 1000"
    with d show ?thesis by simp
  next
    assume "x \<in> set (cumFrom (c + haversineKm (lat p) (lon p) (lat q) (lon q) * 1000) (q # ps))"
    then have "c + haversineKm (lat p) (lon p) (lat q) (lon q) * 1000 \<le> x"
      using "1.IH"[OF refl] by simp
    with d show ?thesis by linarith
  qed
qed simp_all



lemma arcCum_nonneg: "x \<in> set (arcCum points) \<Longrightarrow> 0 \<le> x"
  using cumFrom_ge[of x 0 points] by (auto simp add: arcCum_def)


lemma last_arcCum_nonneg: "0 \<le> last (arcCum points)"
proof -
  have "arcCum points \<noteq> []" by (simp add: arcCum_def)
  then have "last (arcCum points) \<in> set (arcCum points)" by (rule last_in_set)
  then show ?thesis by (rule arcCum_nonneg)
qed


subsection \<open>The search for the bracketing points\<close>

lemma advance_ge: "j \<le> advance cum t j"
proof (induction cum t j rule: advance.induct)
  case (1 cum t j)
  show ?case
  proof (cases "j < length cum \<and> cum ! j < t")
    case True
    then have "advance cum t j = advance cum t (Suc j)" by (subst advance.simps) simp
    with 1 True show ?thesis by simp
  next
    case False
    then have "advance cum t j = j" by (subst advance.simps) auto
    then show ?thesis by simp
  qed
qed

lemma advance_skipped: "j \<le> i \<Longrightarrow> i < advance cum t j \<Longrightarrow> i < length cum \<and> cum ! i < t"
proof (induction cum t j rule: advance.induct)
  case (1 cum t j)
  show ?case
  proof (cases "j < length cum \<and> cum ! j < t")
    case True
    then have eq: "advance cum t j = advance cum t (Suc j)" by (subst advance.simps) simp
    show ?thesis
    proof (cases "i = j")
      case True
      with \<open>j < length cum \<and> cum ! j < t\<close> show ?thesis by simp
    next
      case False
      with "1.prems" have "Suc j \<le> i" by simp
      moreover have "i < advance cum t (Suc j)" using "1.prems" eq by simp
      ultimately show ?thesis using "1.IH"[OF True] by simp
    qed
  next
    case False
    then have "advance cum t j = j" by (subst advance.simps) auto
    with "1.prems" show ?thesis by simp
  qed
qed



lemma advance_from:
  "j0 \<le> j \<Longrightarrow> (\<And>i. j0 \<le> i \<Longrightarrow> i < j \<Longrightarrow> i < length cum \<and> cum ! i < t) \<Longrightarrow>
   advance cum t j0 = advance cum t j"
proof (induction "j - j0" arbitrary: j0)
  case 0
  then show ?case by simp
next
  case (Suc d)
  then have lt: "j0 < j" by simp
  then have "j0 < length cum \<and> cum ! j0 < t" using Suc.prems(2)[of j0] by simp
  then have "advance cum t j0 = advance cum t (Suc j0)" by (subst advance.simps) simp
  also have "\<dots> = advance cum t j"
  proof (rule Suc.hyps(1))
    show "d = j - Suc j0" using Suc.hyps(2) by simp
    show "Suc j0 \<le> j" using lt by simp
    fix i assume "Suc j0 \<le> i" "i < j"
    then show "i < length cum \<and> cum ! i < t" using Suc.prems(2)[of i] by simp
  qed
  finally show ?case .
qed

lemma resampleLoop_map:
  assumes "sorted ts"
  shows "1 \<le> j \<Longrightarrow> (\<And>i t. 1 \<le> i \<Longrightarrow> i < j \<Longrightarrow> t \<in> set ts \<Longrightarrow> i < length cum \<and> cum ! i < t) \<Longrightarrow>
         resampleLoop points cum j ts = map (pointAt points cum) ts"
  using assms
proof (induction ts arbitrary: j)
  case Nil
  then show ?case by simp
next
  case (Cons t ts)
  let ?j = "advance cum t j"
  have eq: "advance cum t 1 = ?j"
  proof (rule advance_from[OF Cons.prems(1)])
    fix i assume "1 \<le> i" "i < j"
    then show "i < length cum \<and> cum ! i < t" using Cons.prems(2)[of i t] by simp
  qed
  have s: "sorted ts" and le: "\<And>t'. t' \<in> set ts \<Longrightarrow> t \<le> t'" using Cons.prems(3) by auto
  have j1: "1 \<le> ?j" using Cons.prems(1) advance_ge[of j cum t] by linarith
  have rest: "resampleLoop points cum ?j ts = map (pointAt points cum) ts"
  proof (rule Cons.IH[OF j1 _ s])
    fix i t' assume i: "1 \<le> i" "i < ?j" "t' \<in> set ts"
    then have "i < length cum \<and> cum ! i < t" using eq advance_skipped[of 1 i cum t] by simp
    with le[OF i(3)] show "i < length cum \<and> cum ! i < t'" by simp
  qed
  have eq': "advance cum t (Suc 0) = ?j" using eq by simp
  show ?case by (simp add: Let_def rest pointAt_def eq')
qed

subsection \<open>The output points\<close>

lemma floor_mult_le:
  fixes x sp :: real
  assumes "0 < sp" "0 \<le> x"
  shows "real (nat \<lfloor>x / sp\<rfloor>) * sp \<le> x"
proof -
  have "0 \<le> x / sp" using assms by simp
  then have "real (nat \<lfloor>x / sp\<rfloor>) = of_int \<lfloor>x / sp\<rfloor>" by simp
  also have "\<dots> \<le> x / sp" by (rule of_int_floor_le)
  finally show ?thesis using assms(1) by (simp add: pos_le_divide_eq)
qed

lemma sorted_multiples: "0 < sp \<Longrightarrow> sorted (map (\<lambda>i. real i * sp) [0..<n])"
  by (induction n) (auto simp add: sorted_append)

lemma sorted_offsets:
  assumes "0 < sp" "0 \<le> tot"
  shows "sorted (offsets tot sp)"
proof -
  let ?m = "nat \<lfloor>tot / sp\<rfloor>"
  have "real i * sp \<le> tot" if "i < Suc ?m" for i
  proof -
    have "real i * sp \<le> real ?m * sp" using that assms(1) by simp
    also have "\<dots> \<le> tot" using assms by (rule floor_mult_le)
    finally show ?thesis .
  qed
  then show ?thesis
    using sorted_multiples[OF assms(1), of "Suc ?m"]
    by (auto simp add: offsets_def sorted_append simp del: upt_Suc)
qed

lemma offsets_ne: "offsets tot sp \<noteq> []"
  by (simp add: offsets_def)

lemma hd_offsets: "hd (offsets tot sp) = 0"
  by (simp add: offsets_def upt_conv_Cons del: upt_Suc)

lemma last_offsets:
  assumes "0 < sp" "0 \<le> tot"
  shows "last (offsets tot sp) = tot"
proof (cases "real (nat \<lfloor>tot / sp\<rfloor>) * sp < tot")
  case True
  then show ?thesis by (simp add: offsets_def)
next
  case False
  with floor_mult_le[OF assms] have "real (nat \<lfloor>tot / sp\<rfloor>) * sp = tot" by simp
  with False show ?thesis by (simp add: offsets_def)
qed

lemma length_offsets: "0 < tot \<Longrightarrow> 2 \<le> length (offsets tot sp)"
  by (cases "nat \<lfloor>tot / sp\<rfloor>") (simp_all add: offsets_def)

lemma resample_zero:
  "last (arcCum points) = 0 \<Longrightarrow>
   resampleByDistance points sp = Some (take (min (length points) 2) points)"
  by (simp add: resampleByDistance_def Let_def)

lemma resample_positive:
  assumes "0 < sp" "0 < last (arcCum points)"
  shows "resampleByDistance points sp =
           Some (map (pointAt points (arcCum points)) (offsets (last (arcCum points)) sp))"
proof -
  let ?tot = "last (arcCum points)"
  have t: "targetsLoop ?tot sp 0 [] = Some (map (\<lambda>i. real i * sp) [0..<Suc (nat \<lfloor>?tot / sp\<rfloor>)])"
    using assms by (intro targetsLoop_returns) simp_all
  have s: "sorted (offsets ?tot sp)" using assms by (intro sorted_offsets) simp_all
  have "resampleLoop points (arcCum points) 1 (offsets ?tot sp)
          = map (pointAt points (arcCum points)) (offsets ?tot sp)"
    using s by (intro resampleLoop_map) simp_all
  then show ?thesis
    using assms(2) t by (simp add: resampleByDistance_def Let_def isFinite_def closeTargets_offsets del: upt_Suc)
qed









lemma resample_ends:
  assumes sp: "0 < sp" and tot: "0 < totalArc points"
  shows "\<exists>out. resampleByDistance points sp = Some out \<and>
          out = map (pointAt points (arcCum points)) (offsets (totalArc points) sp) \<and>
          hd out = pointAt points (arcCum points) 0 \<and>
          last out = pointAt points (arcCum points) (totalArc points) \<and>
          2 \<le> length out"
proof -
  let ?offs = "offsets (totalArc points) sp"
  let ?out = "map (pointAt points (arcCum points)) ?offs"
  have 1: "resampleByDistance points sp = Some ?out"
    using resample_positive[OF sp, of points] tot by (simp add: totalArc_def)
  have ne: "?offs \<noteq> []" by (rule offsets_ne)
  have 2: "hd ?out = pointAt points (arcCum points) 0"
    using ne by (simp add: hd_map hd_offsets)
  have "last ?offs = totalArc points" using sp tot by (intro last_offsets) simp_all
  then have 3: "last ?out = pointAt points (arcCum points) (totalArc points)"
    using ne by (simp add: last_map)
  have 4: "2 \<le> length ?out" using length_offsets[OF tot, of sp] by simp
  from 1 2 3 4 show ?thesis by blast
qed








section \<open>Cumulative arrays\<close>

lemma length_fillPass [simp]: "length (fillPass l ps) = length ps"
  by (induction ps arbitrary: l) (simp_all split: option.splits)

lemma length_fillElevationOnPoints [simp]: "length (fillElevationOnPoints points) = length points"
  by (simp add: fillElevationOnPoints_def)

lemma resample_returns:
  assumes "0 < sp" "2 \<le> length points"
  shows "\<exists>out. resampleByDistance points sp = Some out \<and> 2 \<le> length out"
proof (cases "totalArc points = 0")
  case True
  then have "resampleByDistance points sp = Some (take (min (length points) 2) points)"
    unfolding totalArc_def by (rule resample_zero)
  with assms(2) show ?thesis by simp
next
  case False
  moreover have "0 \<le> totalArc points" unfolding totalArc_def by (rule last_arcCum_nonneg)
  ultimately have "0 < totalArc points" by simp
  from resample_ends[OF assms(1) this] show ?thesis by blast
qed






lemma grownBy_refl: "grownBy st st 0"
  by (simp add: grownBy_def)

lemma grownBy_trans: "grownBy st st' n \<Longrightarrow> grownBy st' st'' m \<Longrightarrow> grownBy st st'' (n + m)"
  unfolding grownBy_def by (elim conjE exE) simp


lemma pushStep_grown: "grownBy st (pushStep st sv) 1"
  by (simp add: grownBy_def pushStep_def)



lemma foldl_pushStep_grown:
  "grownBy st (foldl (\<lambda>s i. pushStep s (f i)) st idxs) (length idxs)"
proof (induction idxs arbitrary: st)
  case Nil
  show ?case by (simp add: grownBy_refl)
next
  case (Cons i idxs)
  from grownBy_trans[OF pushStep_grown Cons.IH[of "pushStep st (f i)"]]
  show ?case by simp
qed

lemma accumulateSteps_grown:
  "grownBy st (accumulateSteps cfg resampled elevFiltered st) (length resampled - 1)"
  using foldl_pushStep_grown[of st _ "[1..<length resampled]"] by (simp add: accumulateSteps_def)


lemma pushStep_track [simp]: "trackLatLngs (pushStep st sv) = trackLatLngs st"
  by (simp add: pushStep_def)

lemma accumulateSteps_track [simp]:
  "trackLatLngs (accumulateSteps cfg resampled elevFiltered st) = trackLatLngs st"
proof -
  have "trackLatLngs (foldl (\<lambda>s i. pushStep s (f i)) st idxs) = trackLatLngs st" for f :: "nat \<Rightarrow> stepValues" and idxs
    by (induction idxs arbitrary: st) simp_all
  then show ?thesis by (simp add: accumulateSteps_def)
qed


lemma grownBy_cong:
  "cumDistKm a = cumDistKm b \<Longrightarrow> cumAscentM a = cumAscentM b \<Longrightarrow> cumDescentM a = cumDescentM b \<Longrightarrow>
   cumTimeH a = cumTimeH b \<Longrightarrow> grownBy a st' n = grownBy b st' n"
  by (simp add: grownBy_def)


lemma processSegment_shape:
  assumes sp: "0 < spacingM cfg" and pts: "2 \<le> length pts"
  shows "\<exists>resampled elevFiltered st3.
           resampleByDistance (fillElevationOnPoints pts) (spacingM cfg) = Some resampled \<and>
           2 \<le> length resampled \<and>
           processSegment cfg pts st = Some (accumulateSteps cfg resampled elevFiltered st3) \<and>
           cumDistKm st3 = cumDistKm (seamed st) \<and> cumAscentM st3 = cumAscentM (seamed st) \<and>
           cumDescentM st3 = cumDescentM (seamed st) \<and> cumTimeH st3 = cumTimeH (seamed st) \<and>
           trackLatLngs st3 = trackLatLngs st @ map (\<lambda>p. (lat p, lon p)) resampled"
proof -
  have "2 \<le> length (fillElevationOnPoints pts)" using pts by simp
  from resample_returns[OF sp this] obtain resampled where
    r: "resampleByDistance (fillElevationOnPoints pts) (spacingM cfg) = Some resampled" "2 \<le> length resampled"
    by blast
  define elevFiltered where "elevFiltered =
    cumulativeDeadbandFilter
      (medianFilter (map ele resampled) (clampToOdd (max 3 (mathRound (smoothWinM cfg / spacingM cfg))) 3 999))
      (elevDeadbandM cfg)"
  define st3 where "st3 =
    (seamed (st\<lparr>trackBreakIdx := trackBreakIdx st @ [length (trackLatLngs st)]\<rparr>))
      \<lparr>trackLatLngs := trackLatLngs st @ map (\<lambda>p. (lat p, lon p)) resampled\<rparr>"
  have c3: "cumDistKm st3 = cumDistKm (seamed st)" "cumAscentM st3 = cumAscentM (seamed st)"
       "cumDescentM st3 = cumDescentM (seamed st)" "cumTimeH st3 = cumTimeH (seamed st)"
    by (simp_all add: st3_def seamed_def carryForward_def)
  have t3: "trackLatLngs st3 = trackLatLngs st @ map (\<lambda>p. (lat p, lon p)) resampled"
    by (simp add: st3_def)
  have ps: "processSegment cfg pts st = Some (accumulateSteps cfg resampled elevFiltered st3)"
    using pts r by (simp add: processSegment_def Let_def elevFiltered_def st3_def seamed_def carryForward_def)
  from r ps c3 t3 show ?thesis by blast
qed






lemma setRoadbookLabel_fields [simp]:
  "trackLatLngs (setRoadbookLabel idx l st) = trackLatLngs st"
  "cumDistKm (setRoadbookLabel idx l st) = cumDistKm st"
  "cumAscentM (setRoadbookLabel idx l st) = cumAscentM st"
  "cumDescentM (setRoadbookLabel idx l st) = cumDescentM st"
  "cumTimeH (setRoadbookLabel idx l st) = cumTimeH st"
  by (simp_all add: setRoadbookLabel_def Let_def)

lemma addRoadbookIndex_fields [simp]:
  "trackLatLngs (addRoadbookIndex i nr l lk st) = trackLatLngs st"
  "cumDistKm (addRoadbookIndex i nr l lk st) = cumDistKm st"
  "cumAscentM (addRoadbookIndex i nr l lk st) = cumAscentM st"
  "cumDescentM (addRoadbookIndex i nr l lk st) = cumDescentM st"
  "cumTimeH (addRoadbookIndex i nr l lk st) = cumTimeH st"
  by (simp_all add: addRoadbookIndex_def Let_def)

lemma addStartFinish_fields [simp]:
  "trackLatLngs (addStartFinish st) = trackLatLngs st"
  "cumDistKm (addStartFinish st) = cumDistKm st"
  "cumAscentM (addStartFinish st) = cumAscentM st"
  "cumDescentM (addStartFinish st) = cumDescentM st"
  "cumTimeH (addStartFinish st) = cumTimeH st"
  by (simp_all add: addStartFinish_def)

lemma importWaypoint_fields [simp]:
  "trackLatLngs (importWaypoint st wp) = trackLatLngs st"
  "cumDistKm (importWaypoint st wp) = cumDistKm st"
  "cumAscentM (importWaypoint st wp) = cumAscentM st"
  "cumDescentM (importWaypoint st wp) = cumDescentM st"
  "cumTimeH (importWaypoint st wp) = cumTimeH st"
  by (simp_all add: importWaypoint_def Let_def)

lemma importWaypoints_fields [simp]:
  "trackLatLngs (foldl importWaypoint st wps) = trackLatLngs st"
  "cumDistKm (foldl importWaypoint st wps) = cumDistKm st"
  "cumAscentM (foldl importWaypoint st wps) = cumAscentM st"
  "cumDescentM (foldl importWaypoint st wps) = cumDescentM st"
  "cumTimeH (foldl importWaypoint st wps) = cumTimeH st"
  by (induction wps arbitrary: st) simp_all


subsection \<open>A run on a file with two points at one position\<close>
















text \<open>
  C6. When a segment is appended to a trajectory that already has points, each of the four
  cumulative arrays is its old content, then its old last entry once more, then one entry per
  step of the new segment; the entry at the seam minus the entry before it is 0, for distance
  and for time.
\<close>

theorem seam_entry_duplicates_totals:
  assumes "0 < spacingM cfg" "2 \<le> length pts" "trackLatLngs st \<noteq> []"
    and "cumDistKm st \<noteq> []" "cumAscentM st \<noteq> []" "cumDescentM st \<noteq> []" "cumTimeH st \<noteq> []"
  shows "\<exists>resampled st'.
           resampleByDistance (fillElevationOnPoints pts) (spacingM cfg) = Some resampled \<and>
           processSegment cfg pts st = Some st' \<and>
           trackLatLngs st' = trackLatLngs st @ map (\<lambda>p. (lat p, lon p)) resampled \<and>
           (\<exists>r. cumDistKm st' = cumDistKm st @ [last (cumDistKm st)] @ r \<and> length r = length resampled - 1) \<and>
           (\<exists>r. cumAscentM st' = cumAscentM st @ [last (cumAscentM st)] @ r \<and> length r = length resampled - 1) \<and>
           (\<exists>r. cumDescentM st' = cumDescentM st @ [last (cumDescentM st)] @ r \<and> length r = length resampled - 1) \<and>
           (\<exists>r. cumTimeH st' = cumTimeH st @ [last (cumTimeH st)] @ r \<and> length r = length resampled - 1) \<and>
           cumDistKm st' ! length (cumDistKm st) - cumDistKm st' ! (length (cumDistKm st) - 1) = 0 \<and>
           cumTimeH st' ! length (cumTimeH st) - cumTimeH st' ! (length (cumTimeH st) - 1) = 0"
proof -
  from processSegment_shape[OF assms(1,2), of st] obtain resampled :: "point list" and elevFiltered st3 where
    r: "resampleByDistance (fillElevationOnPoints pts) (spacingM cfg) = Some resampled"
    and ps: "processSegment cfg pts st = Some (accumulateSteps cfg resampled elevFiltered st3)"
    and c3: "cumDistKm st3 = cumDistKm (seamed st)" "cumAscentM st3 = cumAscentM (seamed st)"
       "cumDescentM st3 = cumDescentM (seamed st)" "cumTimeH st3 = cumTimeH (seamed st)"
    and t3: "trackLatLngs st3 = trackLatLngs st @ map (\<lambda>p. (lat p, lon p)) resampled"
    by blast
  let ?st' = "accumulateSteps cfg resampled elevFiltered st3"
  have g: "grownBy (seamed st) ?st' (length resampled - 1)"
    using accumulateSteps_grown[of st3 cfg resampled elevFiltered] grownBy_cong[OF c3] by simp
  have sm: "cumDistKm (seamed st) = cumDistKm st @ [last (cumDistKm st)]"
       "cumAscentM (seamed st) = cumAscentM st @ [last (cumAscentM st)]"
       "cumDescentM (seamed st) = cumDescentM st @ [last (cumDescentM st)]"
       "cumTimeH (seamed st) = cumTimeH st @ [last (cumTimeH st)]"
    using assms(3) by (simp_all add: seamed_def carryForward_def)
  from g sm have
    d: "\<exists>r. cumDistKm ?st' = cumDistKm st @ [last (cumDistKm st)] @ r \<and> length r = length resampled - 1" and
    a: "\<exists>r. cumAscentM ?st' = cumAscentM st @ [last (cumAscentM st)] @ r \<and> length r = length resampled - 1" and
    e: "\<exists>r. cumDescentM ?st' = cumDescentM st @ [last (cumDescentM st)] @ r \<and> length r = length resampled - 1" and
    h: "\<exists>r. cumTimeH ?st' = cumTimeH st @ [last (cumTimeH st)] @ r \<and> length r = length resampled - 1"
    by (simp_all add: grownBy_def)
  have z: "(xs @ [last xs] @ r) ! length xs - (xs @ [last xs] @ r) ! (length xs - 1) = 0"
    if "xs \<noteq> []" for xs r :: "real list"
  proof -
    have "(xs @ [last xs] @ r) ! length xs = last xs" by (simp add: nth_append)
    moreover have "(xs @ [last xs] @ r) ! (length xs - 1) = last xs"
      using that by (simp add: nth_append last_conv_nth)
    ultimately show ?thesis by simp
  qed
  have zd: "cumDistKm ?st' ! length (cumDistKm st) - cumDistKm ?st' ! (length (cumDistKm st) - 1) = 0"
    using d z[OF assms(4)] by auto
  have zt: "cumTimeH ?st' ! length (cumTimeH st) - cumTimeH ?st' ! (length (cumTimeH st) - 1) = 0"
    using h z[OF assms(7)] by auto
  have tr: "trackLatLngs ?st' = trackLatLngs st @ map (\<lambda>p. (lat p, lon p)) resampled"
    using t3 by simp
  show ?thesis
    using r ps tr d a e h zd zt by (intro exI[of _ resampled] exI[of _ ?st']) simp
qed

theorem seam_entry_duplicates_totals_witness:
  "0 < spacingM exampleConfig \<and> 2 \<le> length endPoints \<and> trackLatLngs twoPointSession \<noteq> [] \<and>
   (\<exists>st'. processSegment exampleConfig endPoints twoPointSession = Some st' \<and>
      take 3 (cumDistKm st') = [0, 8, 8] \<and> take 3 (cumAscentM st') = [0, 100, 100] \<and>
      take 3 (cumDescentM st') = [0, 0, 0] \<and> take 3 (cumTimeH st') = [0, 2, 2])"
proof -
  have 1: "0 < spacingM exampleConfig" by (simp add: exampleConfig_def)
  have 2: "2 \<le> length endPoints" by (simp add: endPoints_def)
  have 3: "trackLatLngs twoPointSession \<noteq> []" "cumDistKm twoPointSession \<noteq> []"
    "cumAscentM twoPointSession \<noteq> []" "cumDescentM twoPointSession \<noteq> []" "cumTimeH twoPointSession \<noteq> []"
    by (simp_all add: twoPointSession_def)
  have 4: "cumDistKm twoPointSession = [0, 8]" "cumAscentM twoPointSession = [0, 100]"
    "cumDescentM twoPointSession = [0, 0]" "cumTimeH twoPointSession = [0, 2]"
    by (simp_all add: twoPointSession_def)
  from seam_entry_duplicates_totals [OF 1 2 3]
  obtain st' where
    "processSegment exampleConfig endPoints twoPointSession = Some st'"
    "\<exists>r. cumDistKm st' = cumDistKm twoPointSession @ [last (cumDistKm twoPointSession)] @ r"
    "\<exists>r. cumAscentM st' = cumAscentM twoPointSession @ [last (cumAscentM twoPointSession)] @ r"
    "\<exists>r. cumDescentM st' = cumDescentM twoPointSession @ [last (cumDescentM twoPointSession)] @ r"
    "\<exists>r. cumTimeH st' = cumTimeH twoPointSession @ [last (cumTimeH twoPointSession)] @ r"
    by blast
  then have "\<exists>st'. processSegment exampleConfig endPoints twoPointSession = Some st' \<and>
      take 3 (cumDistKm st') = [0, 8, 8] \<and> take 3 (cumAscentM st') = [0, 100, 100] \<and>
      take 3 (cumDescentM st') = [0, 0, 0] \<and> take 3 (cumTimeH st') = [0, 2, 2]"
    unfolding 4 by (intro exI[of _ st']) auto
  with 1 2 3(1) show ?thesis by simp
qed

end
